theory Spec2Isabelle
  imports Main "HOL-Library.Multiset"
begin

section \<open>The C library functions the program calls\<close>

text \<open>
  A C string is modelled by the list of the characters that stand before its
  terminating NUL, so the empty list is the empty string and no stored string contains
  \<open>CHR 0x00\<close>.  The program never calls \<open>setlocale\<close>, so \<open>isspace\<close> is the one of the
  "C" locale: space, and the five control characters from horizontal tab to carriage
  return.
\<close>

definition isspace :: "char \<Rightarrow> bool" where
  "isspace c \<longleftrightarrow>
     c = CHR 0x20 \<or> c = CHR 0x09 \<or> c = CHR 0x0A \<or> c = CHR 0x0B \<or> c = CHR 0x0C \<or> c = CHR 0x0D"

definition isdigit :: "char \<Rightarrow> bool" where
  "isdigit c \<longleftrightarrow> (48::nat) \<le> of_char c \<and> of_char c \<le> (57::nat)"

text \<open>
  \<open>strncmp s t n\<close> compares at most \<open>n\<close> characters and stops at the end of either
  string; the result is the difference of the first two characters that differ (the
  terminating NUL counts as 0).
\<close>

fun strncmp :: "string \<Rightarrow> string \<Rightarrow> nat \<Rightarrow> int" where
  "strncmp s t 0 = 0"
| "strncmp [] [] (Suc n) = 0"
| "strncmp [] (d # t) (Suc n) = - int (of_char d)"
| "strncmp (c # s) [] (Suc n) = int (of_char c)"
| "strncmp (c # s) (d # t) (Suc n) =
     (if c = d then strncmp s t n else int (of_char c) - int (of_char d))"

text \<open>
  \<open>strncpy dst src n\<close> writes exactly \<open>n\<close> characters over the beginning of \<open>dst\<close>:
  those of \<open>src\<close>, then NULs when \<open>src\<close> is shorter (the string then ends there).  The
  third equation writes past the end of the destination string; \<open>check_todo\<close> calls
  \<open>strncpy\<close> only after \<open>strncmp\<close> has found five characters there.
\<close>

fun strncpy :: "string \<Rightarrow> string \<Rightarrow> nat \<Rightarrow> string" where
  "strncpy dst src 0 = dst"
| "strncpy dst [] (Suc n) = []"
| "strncpy [] (c # src) (Suc n) = c # strncpy [] src n"
| "strncpy (d # dst) (c # src) (Suc n) = c # strncpy dst src n"

text \<open>
  \<open>strdup\<close> copies a buffer up to its first NUL.  \<open>fgets\<close> stores what it read in the
  buffer and terminates it by a NUL, but a NUL that was read from the file ends the copy
  earlier.
\<close>

fun strdup :: "string \<Rightarrow> string" where
  "strdup [] = []"
| "strdup (c # cs) = (if c = CHR 0x00 then [] else c # strdup cs)"

text \<open>
  \<open>fgets_chars n s\<close> reads from the stream \<open>s\<close> until \<open>n\<close> characters are read, a newline
  has been read, or the stream ends, and returns the characters read and the rest of
  the stream.  \<open>fgets n s\<close> reads at most \<open>n - 1\<close> characters and returns NULL
  (\<open>None\<close>) when the stream is at its end.
\<close>

fun fgets_chars :: "nat \<Rightarrow> string \<Rightarrow> string \<times> string" where
  "fgets_chars 0 s = ([], s)"
| "fgets_chars (Suc n) [] = ([], [])"
| "fgets_chars (Suc n) (c # s) =
     (if c = CHR 0x0A then ([c], s)
      else (case fgets_chars n s of (line, rest) \<Rightarrow> (c # line, rest)))"

definition fgets :: "nat \<Rightarrow> string \<Rightarrow> (string \<times> string) option" where
  "fgets n s = (if s = [] then None else Some (fgets_chars (n - 1) s))"

text \<open>
  The value of a decimal numeral: \<open>decimal_value s\<close> skips white space, reads an
  optional sign and then decimal digits up to the first character that is not a
  digit; a string without digits there has the value 0.
\<close>

fun digits_value :: "string \<Rightarrow> int \<Rightarrow> int" where
  "digits_value [] acc = acc"
| "digits_value (c # cs) acc =
     (if isdigit c then digits_value cs (10 * acc + (int (of_char c) - 48)) else acc)"

fun skip_space :: "string \<Rightarrow> string" where
  "skip_space [] = []"
| "skip_space (c # cs) = (if isspace c then skip_space cs else c # cs)"

definition decimal_value :: "string \<Rightarrow> int" where
  "decimal_value s =
     (case skip_space s of
        [] \<Rightarrow> 0
      | c # cs \<Rightarrow>
          if c = CHR ''-'' then - digits_value cs 0
          else if c = CHR ''+'' then digits_value cs 0
          else digits_value (c # cs) 0)"

definition INT_MAX :: int where
  "INT_MAX = 2147483647"

definition LONG_MAX :: int where
  "LONG_MAX = 9223372036854775807"

text \<open>
  The conversion of an integer to \<open>int\<close> as the machine computes it: the low 32 bits,
  read as a signed number.
\<close>

definition to_int :: "int \<Rightarrow> int" where
  "to_int x = (x + 2147483648) mod 4294967296 - 2147483648"

text \<open>
  \<open>strtol\<close> in base 10 returns the value of the numeral, or \<open>LONG_MAX\<close> or \<open>LONG_MIN\<close> when
  the value is beyond them (\<open>long\<close> has 64 bits).  \<open>atoi\<close> is the one of the GNU C
  library: the result of \<open>strtol\<close> converted to \<open>int\<close>.  So a numeral outside the range
  of \<open>int\<close> is not rejected: \<open>4294967297\<close> is read as 1 and \<open>2147483648\<close> as
  \<open>-2147483648\<close>.
\<close>

definition strtol :: "string \<Rightarrow> int" where
  "strtol s =
     (let v = decimal_value s in
      if LONG_MAX < v then LONG_MAX
      else if v < - LONG_MAX - 1 then - LONG_MAX - 1
      else v)"

definition atoi :: "string \<Rightarrow> int" where
  "atoi s = to_int (strtol s)"

text \<open>Subtraction of two \<open>int\<close>s as the machine computes it: modulo \<open>2 ^ 32\<close>, signed.\<close>

definition int_sub :: "int \<Rightarrow> int \<Rightarrow> int" where
  "int_sub a b = to_int (a - b)"

text \<open>
  \<open>qsort\<close> sorts by its comparison function; the model is insertion sort, which calls
  the comparison function as any implementation must and puts \<open>x\<close> before \<open>y\<close> when
  \<open>cmp x y \<le> 0\<close>.
\<close>

fun qsort_insert :: "(int \<Rightarrow> int \<Rightarrow> int) \<Rightarrow> int \<Rightarrow> int list \<Rightarrow> int list" where
  "qsort_insert cmp x [] = [x]"
| "qsort_insert cmp x (y # ys) =
     (if cmp x y \<le> 0 then x # y # ys else y # qsort_insert cmp x ys)"

fun qsort :: "int list \<Rightarrow> (int \<Rightarrow> int \<Rightarrow> int) \<Rightarrow> int list" where
  "qsort [] cmp = []"
| "qsort (x # xs) cmp = qsort_insert cmp x (qsort xs cmp)"

section \<open>The program state\<close>

text \<open>
  The globals of the program and the part of its environment it reads and writes:
  \<open>todo_lines\<close> is the NULL-terminated array of lines (\<open>None\<close> is the NULL pointer),
  \<open>todos_file\<close> is the content of the file named \<open>todos_filename\<close> (\<open>None\<close> when it
  cannot be opened for reading), \<open>writable\<close> tells whether opening it for writing or
  appending succeeds, and \<open>stdout\<close> is what has been printed.  Memory allocation is
  taken to succeed.
\<close>

datatype message =
    Invalid_index int
  | Invalid_index_only int int
  | No_unfinished_tasks_found
  | No_finished_tasks_found
  | Skipping_invalid_index string
  | Error_opening_for_appending
  | Error_opening_for_writing

record world =
  todo_lines :: "string list option"
  todos_file :: "string option"
  writable :: bool
  stdout :: "message list"

definition printf :: "message \<Rightarrow> world \<Rightarrow> world" where
  "printf m w = w\<lparr>stdout := stdout w @ [m]\<rparr>"

definition MAX_LINE_LENGTH :: nat where
  "MAX_LINE_LENGTH = 256"

fun skip_leading_whitespace :: "string \<Rightarrow> string" where
  "skip_leading_whitespace [] = []"
| "skip_leading_whitespace (c # str) =
     (if isspace c then skip_leading_whitespace str else c # str)"

section \<open>Task indexes\<close>

text \<open>
  The loop of \<open>get_unfinished_tasks\<close> and of \<open>get_finished_tasks\<close>: \<open>i\<close> is the position
  of the first line of the list in the array, \<open>tasks\<close> the positions found so far.  The
  two functions differ in the marker only.
\<close>

fun index_loop :: "string \<Rightarrow> nat \<Rightarrow> string list \<Rightarrow> nat list \<Rightarrow> nat list" where
  "index_loop marker i [] tasks = tasks"
| "index_loop marker i (line # lines) tasks =
     index_loop marker (Suc i) lines
       (if strncmp (skip_leading_whitespace line) marker 5 = 0 then tasks @ [i] else tasks)"

definition get_unfinished_tasks :: "world \<Rightarrow> nat list" where
  "get_unfinished_tasks w =
     (case todo_lines w of
        None \<Rightarrow> []
      | Some lines \<Rightarrow> index_loop ''- [ ]'' 0 lines [])"

definition get_finished_tasks :: "world \<Rightarrow> nat list" where
  "get_finished_tasks w =
     (case todo_lines w of
        None \<Rightarrow> []
      | Some lines \<Rightarrow> index_loop ''- [x]'' 0 lines [])"

section \<open>Deleting lines\<close>

text \<open>
  The loop of \<open>delete_line\<close> copies each pointer one place down, the terminating NULL
  last: storing it at position \<open>i\<close> shortens the array to \<open>i\<close> lines, and the test then
  finds the old terminator and stops.  An index beyond the last line is not passed by
  any caller; at the terminator itself the loop does not run.
\<close>

function delete_line_loop :: "nat \<Rightarrow> string list \<Rightarrow> string list" where
  "delete_line_loop i lines =
     (if i < length lines then
        (if Suc i < length lines then delete_line_loop (Suc i) (lines[i := lines ! Suc i])
         else take i lines)
      else lines)"
  by pat_completeness auto
termination
  by (relation "measure (\<lambda>(i, lines). length lines - i)") auto

declare delete_line_loop.simps [simp del]

definition delete_line :: "nat \<Rightarrow> world \<Rightarrow> world" where
  "delete_line line_index w =
     (case todo_lines w of
        None \<Rightarrow> w
      | Some lines \<Rightarrow> w\<lparr>todo_lines := Some (delete_line_loop line_index lines)\<rparr>)"

text \<open>
  The loop of \<open>remove_finished_tasks\<close> runs \<open>i\<close> from \<open>count - 1\<close> down to 0; the model
  counts \<open>i + 1\<close>.
\<close>

fun remove_loop :: "nat list \<Rightarrow> nat \<Rightarrow> world \<Rightarrow> world" where
  "remove_loop finished_tasks 0 w = w"
| "remove_loop finished_tasks (Suc i) w =
     remove_loop finished_tasks i (delete_line (finished_tasks ! i) w)"

definition remove_finished_tasks :: "world \<Rightarrow> world" where
  "remove_finished_tasks w =
     (let finished_tasks = get_finished_tasks w in
      if finished_tasks = [] then printf No_finished_tasks_found w
      else remove_loop finished_tasks (length finished_tasks) w)"

definition remove_task :: "int \<Rightarrow> world \<Rightarrow> world" where
  "remove_task index w =
     (if index \<le> 0 then printf (Invalid_index index) w
      else
        let unfinished_tasks = get_unfinished_tasks w;
            count = int (length unfinished_tasks)
        in if unfinished_tasks = [] then printf No_unfinished_tasks_found w
           else if index > count then printf (Invalid_index_only index count) w
           else delete_line (unfinished_tasks ! nat (index - 1)) w)"

section \<open>Checking a task\<close>

text \<open>
  \<open>trimmed_line\<close> points into the stored line, so \<open>strncpy\<close> overwrites the line in
  place at the offset of the first character that is not white space.  A non-empty
  index means that \<open>todo_lines\<close> is not NULL.
\<close>

definition check_todo :: "int \<Rightarrow> world \<Rightarrow> world" where
  "check_todo index w =
     (if index \<le> 0 then printf (Invalid_index index) w
      else
        let unfinished_tasks = get_unfinished_tasks w;
            count = int (length unfinished_tasks)
        in if unfinished_tasks = [] then printf No_unfinished_tasks_found w
           else if index > count then printf (Invalid_index_only index count) w
           else
             (case todo_lines w of
                None \<Rightarrow> w
              | Some lines \<Rightarrow>
                  let line_index = unfinished_tasks ! nat (index - 1);
                      line = lines ! line_index;
                      trimmed_line = skip_leading_whitespace line;
                      offset = length line - length trimmed_line
                  in if strncmp trimmed_line ''- [ ]'' 5 = 0
                     then w\<lparr>todo_lines :=
                            Some (lines[line_index :=
                                    take offset line @ strncpy trimmed_line ''- [x]'' 5])\<rparr>
                     else w))"

section \<open>Reading and writing the file\<close>

text \<open>
  \<open>read_lines\<close> is the loop of \<open>get_all_lines\<close>: every successful \<open>fgets\<close> into the buffer
  of \<open>MAX_LINE_LENGTH\<close> characters adds a copy of the buffer to the array.
\<close>

lemma fgets_chars_rest: "length (snd (fgets_chars n s)) \<le> length s"
  by (induction n s rule: fgets_chars.induct) (auto split: prod.split)

lemma fgets_chars_rest_less:
  "s \<noteq> [] \<Longrightarrow> length (snd (fgets_chars (Suc n) s)) < length s"
  using fgets_chars_rest [of n "tl s"]
  by (cases s) (auto split: prod.split simp: less_Suc_eq_le)

function read_lines :: "string \<Rightarrow> string list \<Rightarrow> string list" where
  "read_lines s lines =
     (case fgets MAX_LINE_LENGTH s of
        None \<Rightarrow> lines
      | Some (line, rest) \<Rightarrow> read_lines rest (lines @ [strdup line]))"
  by pat_completeness auto
termination
proof (relation "measure (\<lambda>(s, lines). length s)")
  show "wf (measure (\<lambda>(s, lines). length s))"
    by simp
next
  fix s :: string and lines :: "string list" and x line rest
  assume "fgets MAX_LINE_LENGTH s = Some x" and "(line, rest) = x"
  then have "s \<noteq> []" and "rest = snd (fgets_chars (Suc 254) s)"
    by (auto simp: fgets_def MAX_LINE_LENGTH_def split: if_splits)
  then show "((rest, lines @ [strdup line]), (s, lines)) \<in> measure (\<lambda>(s, lines). length s)"
    using fgets_chars_rest_less [of s 254] by simp
qed

declare read_lines.simps [simp del]

definition get_all_lines :: "world \<Rightarrow> string list option" where
  "get_all_lines w =
     (case todos_file w of
        None \<Rightarrow> None
      | Some s \<Rightarrow>
          let lines = read_lines s [] in
          if lines = [] then None else Some lines)"

text \<open>\<open>fprintf_lines\<close> is the loop of \<open>save_todos\<close>; \<open>out\<close> is what the file holds so far.\<close>

fun fprintf_lines :: "string list \<Rightarrow> string \<Rightarrow> string" where
  "fprintf_lines [] out = out"
| "fprintf_lines (line # lines) out = fprintf_lines lines (out @ line)"

definition save_todos :: "world \<Rightarrow> world" where
  "save_todos w =
     (case todo_lines w of
        None \<Rightarrow> w
      | Some lines \<Rightarrow>
          if \<not> writable w then printf Error_opening_for_writing w
          else w\<lparr>todos_file := Some (fprintf_lines lines [])\<rparr>)"

text \<open>
  The search for the last line in \<open>add_todo\<close> reads \<open>todo_lines[i + 1]\<close> before anything
  else, which is outside the array when the array holds no line: \<open>None\<close>.
\<close>

fun last_line :: "string list \<Rightarrow> string option" where
  "last_line [] = None"
| "last_line [line] = Some line"
| "last_line (line # next_line # lines) = last_line (next_line # lines)"

text \<open>
  Opening a file for appending creates it when it does not exist.  The result \<open>None\<close>
  of \<open>add_todo\<close> is the read outside the array.
\<close>

definition add_todo :: "string \<Rightarrow> world \<Rightarrow> world option" where
  "add_todo task w =
     (if \<not> writable w then Some (printf Error_opening_for_appending w)
      else
        let file = (case todos_file w of None \<Rightarrow> [] | Some s \<Rightarrow> s) in
        case todo_lines w of
          None \<Rightarrow> Some (w\<lparr>todos_file := Some (file @ ''- [ ] '' @ task @ [CHR 0x0A])\<rparr>)
        | Some lines \<Rightarrow>
            (case last_line lines of
               None \<Rightarrow> None
             | Some l \<Rightarrow>
                 let file' = (if length l > 0 \<and> l ! (length l - 1) \<noteq> CHR 0x0A
                              then file @ [CHR 0x0A] else file)
                 in Some (w\<lparr>todos_file := Some (file' @ ''- [ ] '' @ task @ [CHR 0x0A])\<rparr>)))"

section \<open>Several indexes at once\<close>

definition compare_int_desc :: "int \<Rightarrow> int \<Rightarrow> int" where
  "compare_int_desc ai bi = int_sub bi ai"

fun parse_indexes :: "string list \<Rightarrow> int list \<Rightarrow> world \<Rightarrow> int list \<times> world" where
  "parse_indexes [] indexes w = (indexes, w)"
| "parse_indexes (arg # args) indexes w =
     (let idx = atoi arg in
      if idx \<le> 0 then parse_indexes args indexes (printf (Skipping_invalid_index arg) w)
      else parse_indexes args (indexes @ [idx]) w)"

fun call_loop :: "(int \<Rightarrow> world \<Rightarrow> world) \<Rightarrow> int list \<Rightarrow> world \<Rightarrow> world" where
  "call_loop fn [] w = w"
| "call_loop fn (idx # indexes) w = call_loop fn indexes (fn idx w)"

text \<open>
  \<open>argv\<close> is the argument vector (\<open>argc\<close> its length) and \<open>index\<close> the position of the
  first index argument, which \<open>main\<close> has checked to exist; the result is the returned
  value, always 0, and the state.  The first loop collects the indexes and prints a
  diagnostic for every argument it skips, the second calls \<open>fn\<close> on the sorted indexes.
\<close>

definition call_fn_with_indexes ::
  "string list \<Rightarrow> nat \<Rightarrow> (int \<Rightarrow> world \<Rightarrow> world) \<Rightarrow> world \<Rightarrow> int \<times> world" where
  "call_fn_with_indexes argv index fn w =
     (case parse_indexes (drop index argv) [] w of
        (indexes, w') \<Rightarrow> (0, call_loop fn (qsort indexes compare_int_desc) w'))"

section \<open>The classification of lines\<close>

text \<open>
  The task line grammar: a line is an unfinished task when, after its leading white
  space, it begins with the five characters \<open>- [ ]\<close>, a finished task when it begins
  with \<open>- [x]\<close>, and passthrough content otherwise.
\<close>

definition unfinished_line :: "string \<Rightarrow> bool" where
  "unfinished_line l \<longleftrightarrow> take 5 (dropWhile isspace l) = ''- [ ]''"

definition finished_line :: "string \<Rightarrow> bool" where
  "finished_line l \<longleftrightarrow> take 5 (dropWhile isspace l) = ''- [x]''"

definition passthrough_line :: "string \<Rightarrow> bool" where
  "passthrough_line l \<longleftrightarrow> \<not> unfinished_line l \<and> \<not> finished_line l"

text \<open>
  A task index: the positions, in ascending order, of the lines of a classification.
\<close>

definition positions :: "(string \<Rightarrow> bool) \<Rightarrow> string list \<Rightarrow> nat list" where
  "positions P ls = filter (\<lambda>i. P (ls ! i)) [0..<length ls]"

text \<open>
  Marking a line as finished: the five characters that follow its leading white space
  are replaced by \<open>- [x]\<close>.
\<close>

definition mark_finished :: "string \<Rightarrow> string" where
  "mark_finished l = takeWhile isspace l @ ''- [x]'' @ drop 5 (dropWhile isspace l)"

text \<open>The diagnostics that report an invalid index.\<close>

fun is_invalid_index :: "message \<Rightarrow> bool" where
  "is_invalid_index (Invalid_index n) = True"
| "is_invalid_index (Invalid_index_only n c) = True"
| "is_invalid_index m = False"

text \<open>The content of the file; a file that does not exist has none.\<close>

definition file_content :: "world \<Rightarrow> string" where
  "file_content w = (case todos_file w of None \<Rightarrow> [] | Some s \<Rightarrow> s)"

text \<open>A state on which the theorems are tried: a document of four lines, no file.\<close>

definition sample :: world where
  "sample =
     \<lparr>todo_lines = Some [''- [x] a'', ''  - [ ] b'', ''note'', ''- [ ] c''],
      todos_file = None, writable = True, stdout = []\<rparr>"

text \<open>The lines of a document; an absent document has none.\<close>

definition lines_of :: "string list option \<Rightarrow> string list" where
  "lines_of doc = (case doc of None \<Rightarrow> [] | Some lines \<Rightarrow> lines)"

section \<open>Properties of the library functions\<close>

lemma skip_leading_whitespace_dropWhile:
  "skip_leading_whitespace s = dropWhile isspace s"
  by (induction s) auto

lemma of_char_zero_iff:
  "of_char d = (0::nat) \<longleftrightarrow> d = CHR 0x00"
  using of_char_eq_iff [of d "CHR 0x00", where ?'a = nat] by simp

lemma strncmp_zero_iff:
  "n \<le> length t \<Longrightarrow> CHR 0x00 \<notin> set (take n t) \<Longrightarrow>
     strncmp s t n = 0 \<longleftrightarrow> take n s = take n t"
  by (induction s t n rule: strncmp.induct) (auto simp: of_char_zero_iff)

lemma test_unfinished:
  "strncmp (skip_leading_whitespace l) ''- [ ]'' 5 = 0 \<longleftrightarrow> unfinished_line l"
  using strncmp_zero_iff [of 5 "''- [ ]''" "skip_leading_whitespace l"]
  by (simp add: unfinished_line_def skip_leading_whitespace_dropWhile)

lemma test_finished:
  "strncmp (skip_leading_whitespace l) ''- [x]'' 5 = 0 \<longleftrightarrow> finished_line l"
  using strncmp_zero_iff [of 5 "''- [x]''" "skip_leading_whitespace l"]
  by (simp add: finished_line_def skip_leading_whitespace_dropWhile)

section \<open>The indexes are the positions of the task lines\<close>

lemma index_loop_tasks:
  "index_loop m i ls tasks = tasks @ index_loop m i ls []"
proof (induction ls arbitrary: i tasks)
  case Nil
  show ?case by simp
next
  case (Cons l ls)
  show ?case
    using Cons.IH [of "Suc i" "tasks @ [i]"] Cons.IH [of "Suc i" "[i]"] Cons.IH [of "Suc i" tasks]
    by simp
qed

lemma index_loop_Suc:
  "index_loop m (Suc i) ls [] = map Suc (index_loop m i ls [])"
proof (induction ls arbitrary: i)
  case Nil
  show ?case by simp
next
  case (Cons l ls)
  show ?case
    using Cons.IH [of "Suc i"] index_loop_tasks [of m "Suc (Suc i)" ls "[Suc i]"]
      index_loop_tasks [of m "Suc i" ls "[i]"]
    by simp
qed

lemma index_loop_Cons:
  "index_loop m 0 (l # ls) [] =
     (if strncmp (skip_leading_whitespace l) m 5 = 0 then 0 # map Suc (index_loop m 0 ls [])
      else map Suc (index_loop m 0 ls []))"
  using index_loop_tasks [of m "Suc 0" ls "[0]"] index_loop_Suc [of m 0 ls]
  by simp

lemma upt_0_Suc: "[0..<Suc n] = 0 # map Suc [0..<n]"
  by (simp add: upt_conv_Cons map_Suc_upt del: upt_Suc)

lemma index_loop_filter:
  "index_loop m 0 ls [] =
     filter (\<lambda>i. strncmp (skip_leading_whitespace (ls ! i)) m 5 = 0) [0..<length ls]"
proof (induction ls)
  case Nil
  show ?case by simp
next
  case (Cons l ls)
  show ?case
    unfolding index_loop_Cons Cons.IH length_Cons upt_0_Suc
    by (simp add: filter_map comp_def)
qed

lemma unfinished_positions:
  "index_loop ''- [ ]'' 0 ls [] = positions unfinished_line ls"
  by (simp add: index_loop_filter test_unfinished positions_def)

lemma finished_positions:
  "index_loop ''- [x]'' 0 ls [] = positions finished_line ls"
  by (simp add: index_loop_filter test_finished positions_def)

lemma scenario_unfinished:
  "index_loop ''- [ ]'' 0
     [''- [ ] Task 1\<newline>'', ''- [x] Task 2\<newline>'', ''- [ ] Task 3\<newline>''] [] = [0, 2]"
  by code_simp

lemma scenario_finished:
  "index_loop ''- [x]'' 0
     [''- [ ] Task 1\<newline>'', ''- [x] Task 2\<newline>'', ''- [ ] Task 3\<newline>''] [] = [1]"
  by code_simp

lemma get_unfinished_tasks_Some:
  "get_unfinished_tasks (w\<lparr>todo_lines := Some ls\<rparr>) = index_loop ''- [ ]'' 0 ls []"
  by (simp add: get_unfinished_tasks_def)

lemma get_finished_tasks_Some:
  "get_finished_tasks (w\<lparr>todo_lines := Some ls\<rparr>) = index_loop ''- [x]'' 0 ls []"
  by (simp add: get_finished_tasks_def)

text \<open>
  C1.  For every state of the program, \<open>get_unfinished_tasks\<close> returns, in ascending
  order, the 0-based positions of exactly the lines of the document that are
  unfinished tasks (after the leading white space they begin with \<open>- [ ]\<close>), and
  \<open>get_finished_tasks\<close> those of the finished tasks (\<open>- [x]\<close>).  Both return the empty
  sequence, whose length is the count 0, when the document is absent (\<open>todo_lines\<close> is
  NULL) or no line matches.  For the document of the three lines \<open>- [ ] Task 1\<close>,
  \<open>- [x] Task 2\<close>, \<open>- [ ] Task 3\<close>, each with its newline, the unfinished index is
  \<open>[0, 2]\<close> and the finished index is \<open>[1]\<close>.
\<close>

theorem task_indexes_are_positions:
  "get_unfinished_tasks w =
     (case todo_lines w of
        None \<Rightarrow> []
      | Some ls \<Rightarrow> filter (\<lambda>i. unfinished_line (ls ! i)) [0..<length ls])
   \<and> get_finished_tasks w =
     (case todo_lines w of
        None \<Rightarrow> []
      | Some ls \<Rightarrow> filter (\<lambda>i. finished_line (ls ! i)) [0..<length ls])
   \<and> get_unfinished_tasks
       (w\<lparr>todo_lines :=
            Some [''- [ ] Task 1\<newline>'', ''- [x] Task 2\<newline>'', ''- [ ] Task 3\<newline>'']\<rparr>)
       = [0, 2]
   \<and> get_finished_tasks
       (w\<lparr>todo_lines :=
            Some [''- [ ] Task 1\<newline>'', ''- [x] Task 2\<newline>'', ''- [ ] Task 3\<newline>'']\<rparr>)
       = [1]"
proof -
  have unfinished: "get_unfinished_tasks w =
     (case todo_lines w of
        None \<Rightarrow> []
      | Some ls \<Rightarrow> filter (\<lambda>i. unfinished_line (ls ! i)) [0..<length ls])"
    by (simp add: get_unfinished_tasks_def unfinished_positions positions_def split: option.split)
  have finished: "get_finished_tasks w =
     (case todo_lines w of
        None \<Rightarrow> []
      | Some ls \<Rightarrow> filter (\<lambda>i. finished_line (ls ! i)) [0..<length ls])"
    by (simp add: get_finished_tasks_def finished_positions positions_def split: option.split)
  have scenario_1: "get_unfinished_tasks
       (w\<lparr>todo_lines :=
            Some [''- [ ] Task 1\<newline>'', ''- [x] Task 2\<newline>'', ''- [ ] Task 3\<newline>'']\<rparr>)
       = [0, 2]"
    by (simp only: get_unfinished_tasks_Some scenario_unfinished)
  have scenario_2: "get_finished_tasks
       (w\<lparr>todo_lines :=
            Some [''- [ ] Task 1\<newline>'', ''- [x] Task 2\<newline>'', ''- [ ] Task 3\<newline>'']\<rparr>)
       = [1]"
    by (simp only: get_finished_tasks_Some scenario_finished)
  show ?thesis
    using unfinished finished scenario_1 scenario_2 by blast
qed

section \<open>Positions, deletion and update of lines\<close>

lemma delete_line_loop_eq:
  "delete_line_loop i ls = take i ls @ drop (Suc i) ls"
proof (induction i ls rule: delete_line_loop.induct)
  case (1 i ls)
  show ?case
  proof (cases "Suc i < length ls")
    case True
    then have "delete_line_loop i ls = delete_line_loop (Suc i) (ls[i := ls ! Suc i])"
      by (subst delete_line_loop.simps) simp
    also have "\<dots> = take (Suc i) (ls[i := ls ! Suc i]) @ drop (Suc (Suc i)) (ls[i := ls ! Suc i])"
      using "1.IH" True by simp
    also have "\<dots> = take i ls @ ls ! Suc i # drop (Suc (Suc i)) ls"
      using True by (simp add: take_Suc_conv_app_nth)
    also have "\<dots> = take i ls @ drop (Suc i) ls"
      using True by (simp add: Cons_nth_drop_Suc)
    finally show ?thesis .
  next
    case False
    then show ?thesis by (subst delete_line_loop.simps) simp
  qed
qed

lemma positions_Nil: "positions P [] = []"
  by (simp add: positions_def)

lemma positions_Cons:
  "positions P (l # ls) = (if P l then 0 # map Suc (positions P ls) else map Suc (positions P ls))"
  unfolding positions_def length_Cons upt_0_Suc
  by (simp add: filter_map comp_def)

lemma set_positions: "set (positions P ls) = {i. i < length ls \<and> P (ls ! i)}"
  by (auto simp: positions_def)

lemma positions_nth:
  "m < length (positions P ls) \<Longrightarrow> positions P ls ! m < length ls \<and> P (ls ! (positions P ls ! m))"
  using nth_mem [of m "positions P ls"] by (simp add: set_positions)

lemma sorted_positions: "sorted (positions P ls)"
  unfolding positions_def by (rule sorted_wrt_filter) simp

lemma distinct_positions: "distinct (positions P ls)"
  by (simp add: positions_def)

lemma map_nth_positions: "map ((!) ls) (positions P ls) = filter P ls"
proof (induction ls)
  case Nil
  show ?case by (simp add: positions_Nil)
next
  case (Cons l ls)
  then show ?case by (simp add: positions_Cons comp_def)
qed

lemma length_positions: "length (positions P ls) = length (filter P ls)"
  using map_nth_positions [of ls P] by (metis length_map)

lemma filter_before_position:
  "m < length (positions P ls) \<Longrightarrow> length (filter P (take (positions P ls ! m) ls)) = m"
proof (induction ls arbitrary: m)
  case Nil
  then show ?case by (simp add: positions_Nil)
next
  case (Cons l ls)
  show ?case
  proof (cases "P l")
    case True
    show ?thesis
    proof (cases m)
      case 0
      then show ?thesis using True by (simp add: positions_Cons)
    next
      case (Suc m')
      then have "m' < length (positions P ls)"
        using Cons.prems True by (simp add: positions_Cons)
      then show ?thesis
        using Cons.IH [of m'] True Suc by (simp add: positions_Cons)
    qed
  next
    case False
    then have "m < length (positions P ls)"
      using Cons.prems by (simp add: positions_Cons)
    then show ?thesis
      using Cons.IH [of m] False by (simp add: positions_Cons)
  qed
qed

lemma filter_delete_position:
  assumes "m < length (positions P ls)"
  shows "filter P (take (positions P ls ! m) ls @ drop (Suc (positions P ls ! m)) ls) =
     take m (filter P ls) @ drop (Suc m) (filter P ls)"
proof -
  let ?k = "positions P ls ! m"
  have k: "?k < length ls" "P (ls ! ?k)"
    using positions_nth [OF assms] by simp_all
  have len: "length (filter P (take ?k ls)) = m"
    using filter_before_position [OF assms] .
  have "filter P ls = filter P (take ?k ls @ ls ! ?k # drop (Suc ?k) ls)"
    using k(1) by (simp add: id_take_nth_drop [symmetric])
  then have split: "filter P ls = filter P (take ?k ls) @ ls ! ?k # filter P (drop (Suc ?k) ls)"
    using k(2) by simp
  have "take m (filter P ls) = filter P (take ?k ls)"
    using len by (subst split) simp
  moreover have "drop (Suc m) (filter P ls) = filter P (drop (Suc ?k) ls)"
    using len by (subst split) simp
  ultimately show ?thesis by simp
qed

lemma filter_delete_other:
  assumes "k < length ls" and "\<not> Q (ls ! k)"
  shows "filter Q (take k ls @ drop (Suc k) ls) = filter Q ls"
proof -
  have "filter Q ls = filter Q (take k ls @ ls ! k # drop (Suc k) ls)"
    using assms(1) by (simp add: id_take_nth_drop [symmetric])
  then show ?thesis using assms(2) by simp
qed

lemma filter_update_other:
  assumes "k < length ls" and "\<not> Q (ls ! k)" and "\<not> Q x"
  shows "filter Q (ls[k := x]) = filter Q ls"
proof -
  have "filter Q ls = filter Q (take k ls @ ls ! k # drop (Suc k) ls)"
    using assms(1) by (simp add: id_take_nth_drop [symmetric])
  then show ?thesis using assms by (simp add: upd_conv_take_nth_drop)
qed

section \<open>What the operations do to the document\<close>

lemma get_unfinished_tasks_eq:
  "get_unfinished_tasks w = positions unfinished_line (lines_of (todo_lines w))"
  by (simp add: get_unfinished_tasks_def unfinished_positions lines_of_def positions_Nil
      split: option.split)

lemma get_finished_tasks_eq:
  "get_finished_tasks w = positions finished_line (lines_of (todo_lines w))"
  by (simp add: get_finished_tasks_def finished_positions lines_of_def positions_Nil
      split: option.split)

lemma tasks_imp_lines:
  "positions P (lines_of (todo_lines w)) \<noteq> [] \<Longrightarrow> todo_lines w = Some (lines_of (todo_lines w))"
  by (cases "todo_lines w") (simp_all add: lines_of_def positions_Nil)

lemma strncpy_eq:
  "n \<le> length src \<Longrightarrow> n \<le> length dst \<Longrightarrow> strncpy dst src n = take n src @ drop n dst"
  by (induction dst src n rule: strncpy.induct) auto

lemma unfinished_line_split:
  assumes "unfinished_line l"
  shows "l = takeWhile isspace l @ ''- [ ]'' @ drop 5 (dropWhile isspace l)"
proof -
  have marker: "take 5 (dropWhile isspace l) = ''- [ ]''"
    using assms by (simp add: unfinished_line_def)
  have "dropWhile isspace l = take 5 (dropWhile isspace l) @ drop 5 (dropWhile isspace l)"
    by simp
  then have "dropWhile isspace l = ''- [ ]'' @ drop 5 (dropWhile isspace l)"
    by (simp only: marker)
  then show ?thesis
    using takeWhile_dropWhile_id [of isspace l] by metis
qed

lemma unfinished_line_length:
  "unfinished_line l \<Longrightarrow> 5 \<le> length (dropWhile isspace l)"
proof -
  assume "unfinished_line l"
  then have "length (take 5 (dropWhile isspace l)) = 5"
    by (simp add: unfinished_line_def)
  then show ?thesis by simp
qed

lemma check_line:
  assumes "unfinished_line l"
  shows "take (length l - length (skip_leading_whitespace l)) l @
           strncpy (skip_leading_whitespace l) ''- [x]'' 5 = mark_finished l"
proof -
  have "length l = length (takeWhile isspace l) + length (dropWhile isspace l)"
    using takeWhile_dropWhile_id [of isspace l] by (metis length_append)
  then have "take (length l - length (dropWhile isspace l)) l = takeWhile isspace l"
    using takeWhile_eq_take [of isspace l] by simp
  moreover have "strncpy (dropWhile isspace l) ''- [x]'' 5 = ''- [x]'' @ drop 5 (dropWhile isspace l)"
    using strncpy_eq [of 5 "''- [x]''" "dropWhile isspace l"] unfinished_line_length [OF assms]
    by simp
  ultimately show ?thesis
    by (simp add: skip_leading_whitespace_dropWhile mark_finished_def)
qed

lemma dropWhile_mark_finished:
  "dropWhile isspace (mark_finished l) = ''- [x]'' @ drop 5 (dropWhile isspace l)"
proof -
  have "dropWhile isspace (takeWhile isspace l @ ''- [x]'' @ drop 5 (dropWhile isspace l)) =
      dropWhile isspace (''- [x]'' @ drop 5 (dropWhile isspace l))"
    by (rule dropWhile_append2) (auto dest: set_takeWhileD)
  then show ?thesis
    by (simp add: mark_finished_def isspace_def)
qed

lemma finished_mark_finished: "finished_line (mark_finished l)"
  by (simp add: finished_line_def dropWhile_mark_finished)

lemma not_unfinished_mark_finished: "\<not> unfinished_line (mark_finished l)"
  by (simp add: unfinished_line_def dropWhile_mark_finished)

lemma unfinished_not_finished: "unfinished_line l \<Longrightarrow> \<not> finished_line l"
  by (auto simp: unfinished_line_def finished_line_def)

lemma delete_line_Some:
  "todo_lines w = Some ls \<Longrightarrow>
     delete_line k w = w\<lparr>todo_lines := Some (take k ls @ drop (Suc k) ls)\<rparr>"
  by (simp add: delete_line_def delete_line_loop_eq)

text \<open>The task number \<open>n\<close> is within range: the operations reach the resolved line.\<close>

lemma check_todo_in_range:
  assumes "1 \<le> n" and "n \<le> int (length (get_unfinished_tasks w))"
  shows "check_todo n w =
     w\<lparr>todo_lines := Some ((lines_of (todo_lines w))
        [get_unfinished_tasks w ! nat (n - 1) :=
           mark_finished (lines_of (todo_lines w) ! (get_unfinished_tasks w ! nat (n - 1)))])\<rparr>"
proof -
  let ?ls = "lines_of (todo_lines w)"
  let ?U = "get_unfinished_tasks w"
  let ?k = "?U ! nat (n - 1)"
  have U: "?U = positions unfinished_line ?ls"
    by (rule get_unfinished_tasks_eq)
  have m: "nat (n - 1) < length (positions unfinished_line ?ls)"
    using assms U by simp
  then have ne: "?U \<noteq> []"
    using U by auto
  have some: "todo_lines w = Some ?ls"
    using ne U tasks_imp_lines [of unfinished_line w] by simp
  have k: "unfinished_line (?ls ! ?k)"
    using positions_nth [OF m] U by simp
  have test: "strncmp (skip_leading_whitespace (?ls ! ?k)) ''- [ ]'' 5 = 0"
    using k by (simp add: test_unfinished)
  have "check_todo n w =
      (case todo_lines w of
         None \<Rightarrow> w
       | Some lines \<Rightarrow>
           let line_index = ?k;
               line = lines ! line_index;
               trimmed_line = skip_leading_whitespace line;
               offset = length line - length trimmed_line
           in if strncmp trimmed_line ''- [ ]'' 5 = 0
              then w\<lparr>todo_lines :=
                     Some (lines[line_index :=
                             take offset line @ strncpy trimmed_line ''- [x]'' 5])\<rparr>
              else w)"
    using assms ne by (simp add: check_todo_def Let_def)
  also have "\<dots> = w\<lparr>todo_lines := Some (?ls[?k :=
       take (length (?ls ! ?k) - length (skip_leading_whitespace (?ls ! ?k))) (?ls ! ?k) @
       strncpy (skip_leading_whitespace (?ls ! ?k)) ''- [x]'' 5])\<rparr>"
    using test by (subst some) (simp add: Let_def)
  finally show ?thesis
    by (simp only: check_line [OF k])
qed

lemma remove_task_in_range:
  assumes "1 \<le> n" and "n \<le> int (length (get_unfinished_tasks w))"
  shows "remove_task n w =
     w\<lparr>todo_lines := Some (take (get_unfinished_tasks w ! nat (n - 1)) (lines_of (todo_lines w)) @
        drop (Suc (get_unfinished_tasks w ! nat (n - 1))) (lines_of (todo_lines w)))\<rparr>"
proof -
  let ?ls = "lines_of (todo_lines w)"
  let ?U = "get_unfinished_tasks w"
  have U: "?U = positions unfinished_line ?ls"
    by (rule get_unfinished_tasks_eq)
  have ne: "?U \<noteq> []"
    using assms by auto
  have some: "todo_lines w = Some ?ls"
    using ne U tasks_imp_lines [of unfinished_line w] by simp
  have "remove_task n w = delete_line (?U ! nat (n - 1)) w"
    using assms ne by (simp add: remove_task_def Let_def)
  then show ?thesis
    using delete_line_Some [OF some] by simp
qed

text \<open>The task number is out of range: the operations only print.\<close>

lemma check_todo_out_of_range:
  assumes "n \<le> 0 \<or> int (length (get_unfinished_tasks w)) < n"
  shows "check_todo n w =
     printf (if n \<le> 0 then Invalid_index n
             else if get_unfinished_tasks w = [] then No_unfinished_tasks_found
             else Invalid_index_only n (int (length (get_unfinished_tasks w)))) w"
  using assms by (auto simp: check_todo_def Let_def)

lemma remove_task_out_of_range:
  assumes "n \<le> 0 \<or> int (length (get_unfinished_tasks w)) < n"
  shows "remove_task n w =
     printf (if n \<le> 0 then Invalid_index n
             else if get_unfinished_tasks w = [] then No_unfinished_tasks_found
             else Invalid_index_only n (int (length (get_unfinished_tasks w)))) w"
  using assms by (auto simp: remove_task_def Let_def)

section \<open>Removing the finished tasks\<close>

lemma delete_line_loop_Suc:
  "delete_line_loop (Suc k) (l # ls) = l # delete_line_loop k ls"
  by (simp add: delete_line_loop_eq)

lemma delete_line_loop_0:
  "delete_line_loop 0 (l # ls) = ls"
  by (simp add: delete_line_loop_eq)

lemma foldr_delete_map_Suc:
  "foldr delete_line_loop (map Suc ks) (l # ls) = l # foldr delete_line_loop ks ls"
  by (induction ks) (simp_all add: delete_line_loop_Suc)

lemma foldr_delete_positions:
  "foldr delete_line_loop (positions P ls) ls = filter (\<lambda>l. \<not> P l) ls"
proof (induction ls)
  case Nil
  show ?case by (simp add: positions_Nil)
next
  case (Cons l ls)
  show ?case
    using Cons.IH
    by (simp add: positions_Cons foldr_delete_map_Suc delete_line_loop_0)
qed

lemma remove_loop_foldr:
  "i \<le> length f \<Longrightarrow> todo_lines w = Some ls \<Longrightarrow>
     remove_loop f i w = w\<lparr>todo_lines := Some (foldr delete_line_loop (take i f) ls)\<rparr>"
proof (induction i arbitrary: w ls)
  case 0
  then show ?case by simp
next
  case (Suc i)
  have "remove_loop f (Suc i) w = remove_loop f i (delete_line (f ! i) w)"
    by simp
  also have "delete_line (f ! i) w = w\<lparr>todo_lines := Some (delete_line_loop (f ! i) ls)\<rparr>"
    using Suc.prems(2) by (simp add: delete_line_def)
  also have "remove_loop f i (w\<lparr>todo_lines := Some (delete_line_loop (f ! i) ls)\<rparr>) =
      w\<lparr>todo_lines := Some (foldr delete_line_loop (take i f) (delete_line_loop (f ! i) ls))\<rparr>"
    using Suc.IH [of "w\<lparr>todo_lines := Some (delete_line_loop (f ! i) ls)\<rparr>" "delete_line_loop (f ! i) ls"]
      Suc.prems(1) by simp
  also have "foldr delete_line_loop (take i f) (delete_line_loop (f ! i) ls) =
      foldr delete_line_loop (take (Suc i) f) ls"
    using Suc.prems(1) by (simp add: take_Suc_conv_app_nth)
  finally show ?case .
qed

lemma remove_finished_tasks_eq:
  "remove_finished_tasks w =
     (if get_finished_tasks w = [] then printf No_finished_tasks_found w
      else w\<lparr>todo_lines := Some (filter (\<lambda>l. \<not> finished_line l) (lines_of (todo_lines w)))\<rparr>)"
proof (cases "get_finished_tasks w = []")
  case True
  then show ?thesis by (simp add: remove_finished_tasks_def)
next
  case False
  let ?ls = "lines_of (todo_lines w)"
  have F: "get_finished_tasks w = positions finished_line ?ls"
    by (rule get_finished_tasks_eq)
  have some: "todo_lines w = Some ?ls"
    using False F tasks_imp_lines [of finished_line w] by simp
  have "remove_finished_tasks w =
      remove_loop (positions finished_line ?ls) (length (positions finished_line ?ls)) w"
    using False F by (simp add: remove_finished_tasks_def Let_def)
  also have "\<dots> = w\<lparr>todo_lines := Some (foldr delete_line_loop (positions finished_line ?ls) ?ls)\<rparr>"
    using remove_loop_foldr [OF _ some, of "length (positions finished_line ?ls)" "positions finished_line ?ls"]
    by simp
  finally show ?thesis
    using False by (simp add: foldr_delete_positions)
qed

lemma finished_tasks_empty_iff:
  "get_finished_tasks w = [] \<longleftrightarrow> filter finished_line (lines_of (todo_lines w)) = []"
  using length_positions [of finished_line "lines_of (todo_lines w)"]
  by (simp add: get_finished_tasks_eq) (metis length_0_conv)

lemma lines_of_simps:
  "lines_of None = []" "lines_of (Some ls) = ls"
  by (simp_all add: lines_of_def)

lemma todo_lines_printf: "todo_lines (printf m w) = todo_lines w"
  by (simp add: printf_def)

lemma todos_file_printf: "todos_file (printf m w) = todos_file w"
  by (simp add: printf_def)

lemma stdout_printf: "stdout (printf m w) = stdout w @ [m]"
  by (simp add: printf_def)

lemma get_finished_tasks_printf: "get_finished_tasks (printf m w) = get_finished_tasks w"
  by (simp add: get_finished_tasks_def printf_def)

lemma get_unfinished_tasks_printf: "get_unfinished_tasks (printf m w) = get_unfinished_tasks w"
  by (simp add: get_unfinished_tasks_def printf_def)

lemma lines_remove_finished_tasks:
  "lines_of (todo_lines (remove_finished_tasks w)) =
     filter (\<lambda>l. \<not> finished_line l) (lines_of (todo_lines w))"
proof (cases "get_finished_tasks w = []")
  case True
  then have "filter finished_line (lines_of (todo_lines w)) = []"
    by (simp add: finished_tasks_empty_iff)
  then have "filter (\<lambda>l. \<not> finished_line l) (lines_of (todo_lines w)) = lines_of (todo_lines w)"
    by (simp add: filter_empty_conv filter_id_conv)
  then show ?thesis
    using True by (simp add: remove_finished_tasks_eq todo_lines_printf)
next
  case False
  then show ?thesis
    by (simp add: remove_finished_tasks_eq lines_of_simps)
qed

lemma get_finished_tasks_remove_finished_tasks:
  "get_finished_tasks (remove_finished_tasks w) = []"
  by (simp add: finished_tasks_empty_iff lines_remove_finished_tasks)

section \<open>The indexes after a mutation\<close>

lemma positions_update:
  assumes "k < length ls"
  shows "positions P (ls[k := x]) =
     filter (\<lambda>i. if i = k then P x else P (ls ! i)) [0..<length ls]"
  unfolding positions_def length_list_update
  by (rule filter_cong) (simp_all add: nth_list_update assms)

lemma positions_update_remove:
  assumes "k < length ls" and "\<not> P x"
  shows "positions P (ls[k := x]) = remove1 k (positions P ls)"
proof -
  have "positions P (ls[k := x]) = filter (\<lambda>i. i \<noteq> k \<and> P (ls ! i)) [0..<length ls]"
    unfolding positions_update [OF assms(1)]
    by (rule filter_cong) (simp_all add: assms(2))
  also have "\<dots> = filter (\<lambda>i. k \<noteq> i) (positions P ls)"
    unfolding positions_def filter_filter
    by (rule filter_cong) auto
  also have "\<dots> = removeAll k (positions P ls)"
    by (simp add: removeAll_filter_not_eq)
  also have "\<dots> = remove1 k (positions P ls)"
    by (simp add: distinct_remove1_removeAll distinct_positions)
  finally show ?thesis .
qed

lemma positions_update_insort:
  assumes "k < length ls" and "P x" and "\<not> P (ls ! k)"
  shows "positions P (ls[k := x]) = insort k (positions P ls)"
proof (rule sorted_distinct_set_unique)
  show "sorted (positions P (ls[k := x]))"
    by (rule sorted_positions)
  show "distinct (positions P (ls[k := x]))"
    by (rule distinct_positions)
  show "sorted (insort k (positions P ls))"
    by (simp add: sorted_insort sorted_positions)
  show "distinct (insort k (positions P ls))"
    using assms(3) by (simp add: distinct_insort distinct_positions set_positions)
  show "set (positions P (ls[k := x])) = set (insort k (positions P ls))"
    using assms by (auto simp: set_positions set_insort_key nth_list_update)
qed

text \<open>
  C3.  For every state of the program and every task number \<open>n\<close> with
  \<open>1 \<le> n \<le>\<close> the current number of unfinished tasks, \<open>check_todo n\<close> resolves \<open>n\<close>
  through the unfinished index computed on the current document, to the line at
  position \<open>k\<close>.  That line consists of its leading white space, the marker \<open>- [ ]\<close> and
  the rest; the only change to the state is that in this line the five characters of
  the marker become \<open>- [x]\<close>, at the offset where the white space ends: the white space
  and the rest of the line, and every other line, stay as they are.  Afterwards the
  unfinished index is the old one without \<open>k\<close>, one element shorter, and the finished
  index is the old one with \<open>k\<close> inserted, one element longer.
\<close>

theorem check_todo_rewrites_marker:
  assumes "1 \<le> n" and "n \<le> int (length (get_unfinished_tasks w))"
  shows "let ls = lines_of (todo_lines w);
             k = get_unfinished_tasks w ! nat (n - 1);
             w' = check_todo n w
         in k < length ls
          \<and> ls ! k = takeWhile isspace (ls ! k) @ ''- [ ]'' @ drop 5 (dropWhile isspace (ls ! k))
          \<and> w' = w\<lparr>todo_lines := Some (ls[k :=
                   takeWhile isspace (ls ! k) @ ''- [x]'' @ drop 5 (dropWhile isspace (ls ! k))])\<rparr>
          \<and> get_unfinished_tasks w' = remove1 k (get_unfinished_tasks w)
          \<and> get_finished_tasks w' = insort k (get_finished_tasks w)
          \<and> Suc (length (get_unfinished_tasks w')) = length (get_unfinished_tasks w)
          \<and> length (get_finished_tasks w') = Suc (length (get_finished_tasks w))"
proof -
  define ls where "ls = lines_of (todo_lines w)"
  define k where "k = get_unfinished_tasks w ! nat (n - 1)"
  define w' where "w' = check_todo n w"
  have U: "get_unfinished_tasks w = positions unfinished_line ls"
    unfolding ls_def by (rule get_unfinished_tasks_eq)
  have F: "get_finished_tasks w = positions finished_line ls"
    unfolding ls_def by (rule get_finished_tasks_eq)
  have m: "nat (n - 1) < length (positions unfinished_line ls)"
    using assms U by simp
  have k: "k < length ls" "unfinished_line (ls ! k)"
    using positions_nth [OF m] U by (simp_all add: k_def)
  have k_in: "k \<in> set (get_unfinished_tasks w)"
    using k by (simp add: U set_positions)
  have line: "ls ! k = takeWhile isspace (ls ! k) @ ''- [ ]'' @ drop 5 (dropWhile isspace (ls ! k))"
    using unfinished_line_split [OF k(2)] .
  have w': "w' = w\<lparr>todo_lines := Some (ls[k := mark_finished (ls ! k)])\<rparr>"
    unfolding w'_def ls_def k_def by (rule check_todo_in_range [OF assms])
  have U': "get_unfinished_tasks w' = remove1 k (get_unfinished_tasks w)"
  proof -
    have "get_unfinished_tasks w' = positions unfinished_line (ls[k := mark_finished (ls ! k)])"
      unfolding w' by (simp add: get_unfinished_tasks_eq lines_of_simps)
    also have "\<dots> = remove1 k (positions unfinished_line ls)"
      using positions_update_remove [of k ls unfinished_line "mark_finished (ls ! k)"] k(1)
        not_unfinished_mark_finished [of "ls ! k"]
      by blast
    finally show ?thesis by (simp only: U)
  qed
  have F': "get_finished_tasks w' = insort k (get_finished_tasks w)"
  proof -
    have "get_finished_tasks w' = positions finished_line (ls[k := mark_finished (ls ! k)])"
      unfolding w' by (simp add: get_finished_tasks_eq lines_of_simps)
    also have "\<dots> = insort k (positions finished_line ls)"
      using positions_update_insort [of k ls finished_line "mark_finished (ls ! k)"] k(1)
        finished_mark_finished [of "ls ! k"] unfinished_not_finished [OF k(2)]
      by blast
    finally show ?thesis by (simp only: F)
  qed
  have lenU: "Suc (length (get_unfinished_tasks w')) = length (get_unfinished_tasks w)"
    using k_in by (simp add: U' length_remove1) (metis Suc_pred length_pos_if_in_set)
  have lenF: "length (get_finished_tasks w') = Suc (length (get_finished_tasks w))"
    by (simp add: F')
  have "w' = w\<lparr>todo_lines := Some (ls[k :=
      takeWhile isspace (ls ! k) @ ''- [x]'' @ drop 5 (dropWhile isspace (ls ! k))])\<rparr>"
    using w' by (simp only: mark_finished_def)
  then show ?thesis
    unfolding Let_def ls_def [symmetric] k_def [symmetric] w'_def [symmetric]
    using k(1) line U' F' lenU lenF by blast
qed

lemma sample_unfinished: "get_unfinished_tasks sample = [1, 3]"
  by code_simp

lemma sample_finished: "get_finished_tasks sample = [0]"
  by code_simp

lemma sample_lines:
  "lines_of (todo_lines sample) = [''- [x] a'', ''  - [ ] b'', ''note'', ''- [ ] c'']"
  by (simp add: sample_def lines_of_def)

theorem check_todo_rewrites_marker_witness:
  "(1::int) \<le> 2 \<and> 2 \<le> int (length (get_unfinished_tasks sample))
   \<and> todo_lines (check_todo 2 sample) = Some [''- [x] a'', ''  - [ ] b'', ''note'', ''- [x] c'']
   \<and> get_unfinished_tasks (check_todo 2 sample) = [1]
   \<and> get_finished_tasks (check_todo 2 sample) = [0, 3]"
proof -
  have h1: "(1::int) \<le> 2"
    by simp
  have h: "2 \<le> int (length (get_unfinished_tasks sample))"
    by (simp add: sample_unfinished)
  have k: "get_unfinished_tasks sample ! nat (2 - 1) = 3"
    by (simp add: sample_unfinished)
  have line: "lines_of (todo_lines sample) ! 3 = ''- [ ] c''"
    by (simp add: sample_lines)
  have upd: "(lines_of (todo_lines sample))[3 := ''- [x] c''] =
      [''- [x] a'', ''  - [ ] b'', ''note'', ''- [x] c'']"
    unfolding sample_lines by code_simp
  have mark: "takeWhile isspace ''- [ ] c'' @ ''- [x]'' @ drop 5 (dropWhile isspace ''- [ ] c'') =
      ''- [x] c''"
    by (simp add: isspace_def)
  have c: "check_todo 2 sample =
        sample\<lparr>todo_lines := Some ((lines_of (todo_lines sample))[3 :=
          takeWhile isspace ''- [ ] c'' @ ''- [x]'' @ drop 5 (dropWhile isspace ''- [ ] c'')])\<rparr>
      \<and> get_unfinished_tasks (check_todo 2 sample) = remove1 3 (get_unfinished_tasks sample)
      \<and> get_finished_tasks (check_todo 2 sample) = insort 3 (get_finished_tasks sample)"
    using check_todo_rewrites_marker [of 2 sample, OF h1 h]
    unfolding Let_def k line by blast
  have "check_todo 2 sample =
      sample\<lparr>todo_lines := Some [''- [x] a'', ''  - [ ] b'', ''note'', ''- [x] c'']\<rparr>"
    using c [THEN conjunct1] unfolding mark upd .
  then have "todo_lines (check_todo 2 sample) =
      Some [''- [x] a'', ''  - [ ] b'', ''note'', ''- [x] c'']"
    by simp
  moreover have "get_unfinished_tasks (check_todo 2 sample) = [1]"
    using c [THEN conjunct2, THEN conjunct1] unfolding sample_unfinished by simp
  moreover have "get_finished_tasks (check_todo 2 sample) = [0, 3]"
    using c [THEN conjunct2, THEN conjunct2] unfolding sample_finished by simp
  ultimately show ?thesis
    using h by simp
qed

text \<open>
  C4.  For every state of the program and every task number \<open>n\<close> with
  \<open>1 \<le> n \<le>\<close> the current number of unfinished tasks, \<open>remove_task n\<close> resolves \<open>n\<close>
  through the unfinished index to the position \<open>k\<close> of an unfinished task and deletes
  exactly that line: the state changes in the document only, which becomes the lines
  before \<open>k\<close> followed by the lines after \<open>k\<close>, so the lines before \<open>k\<close> keep their
  positions and every later line moves up by one.  The unfinished index computed
  afterwards is one element shorter, and the unfinished tasks it lists are the former
  ones without the \<open>n\<close>-th, in the same order.
\<close>

theorem remove_task_deletes_line:
  assumes "1 \<le> n" and "n \<le> int (length (get_unfinished_tasks w))"
  shows "let ls = lines_of (todo_lines w);
             k = get_unfinished_tasks w ! nat (n - 1);
             w' = remove_task n w;
             ls' = lines_of (todo_lines w')
         in k < length ls \<and> unfinished_line (ls ! k)
          \<and> w' = w\<lparr>todo_lines := Some (take k ls @ drop (Suc k) ls)\<rparr>
          \<and> Suc (length ls') = length ls
          \<and> (\<forall>i. i < k \<longrightarrow> ls' ! i = ls ! i)
          \<and> (\<forall>i. k \<le> i \<and> i < length ls' \<longrightarrow> ls' ! i = ls ! Suc i)
          \<and> Suc (length (get_unfinished_tasks w')) = length (get_unfinished_tasks w)
          \<and> map ((!) ls') (get_unfinished_tasks w') =
              take (nat (n - 1)) (map ((!) ls) (get_unfinished_tasks w)) @
              drop (Suc (nat (n - 1))) (map ((!) ls) (get_unfinished_tasks w))"
proof -
  define ls where "ls = lines_of (todo_lines w)"
  define m where "m = nat (n - 1)"
  define k where "k = get_unfinished_tasks w ! m"
  define w' where "w' = remove_task n w"
  define ls' where "ls' = lines_of (todo_lines w')"
  have U: "get_unfinished_tasks w = positions unfinished_line ls"
    unfolding ls_def by (rule get_unfinished_tasks_eq)
  have m: "m < length (positions unfinished_line ls)"
    using assms U by (simp add: m_def)
  have k: "k < length ls" "unfinished_line (ls ! k)"
    using positions_nth [OF m] U by (simp_all add: k_def)
  have w': "w' = w\<lparr>todo_lines := Some (take k ls @ drop (Suc k) ls)\<rparr>"
    unfolding w'_def ls_def k_def m_def by (rule remove_task_in_range [OF assms])
  have ls': "ls' = take k ls @ drop (Suc k) ls"
    unfolding ls'_def w' by (simp add: lines_of_simps)
  have len: "Suc (length ls') = length ls"
    using k(1) by (simp add: ls')
  have before: "\<forall>i. i < k \<longrightarrow> ls' ! i = ls ! i"
    using k(1) by (simp add: ls' nth_append)
  have after: "\<forall>i. k \<le> i \<and> i < length ls' \<longrightarrow> ls' ! i = ls ! Suc i"
    using k(1) len by (auto simp: ls' nth_append min_def)
  have U': "get_unfinished_tasks w' = positions unfinished_line ls'"
    unfolding ls'_def by (rule get_unfinished_tasks_eq)
  have tasks: "filter unfinished_line ls' =
      take m (filter unfinished_line ls) @ drop (Suc m) (filter unfinished_line ls)"
    using filter_delete_position [OF m] U by (simp add: ls' k_def)
  have order: "map ((!) ls') (get_unfinished_tasks w') =
      take m (map ((!) ls) (get_unfinished_tasks w)) @
      drop (Suc m) (map ((!) ls) (get_unfinished_tasks w))"
    by (simp only: U U' map_nth_positions tasks)
  have "length (filter unfinished_line ls') = length (filter unfinished_line ls) - 1"
    using m by (simp add: tasks length_positions)
  then have lenU: "Suc (length (get_unfinished_tasks w')) = length (get_unfinished_tasks w)"
    using m by (simp add: U U' length_positions)
  show ?thesis
    unfolding Let_def ls_def [symmetric] m_def [symmetric] k_def [symmetric]
      w'_def [symmetric] ls'_def [symmetric]
    using k w' len before after lenU order by blast
qed

lemma sample_take_drop:
  "take 1 (lines_of (todo_lines sample)) @ drop (Suc 1) (lines_of (todo_lines sample)) =
     [''- [x] a'', ''note'', ''- [ ] c'']"
  unfolding sample_lines by simp

theorem remove_task_deletes_line_witness:
  "(1::int) \<le> 1 \<and> 1 \<le> int (length (get_unfinished_tasks sample))
   \<and> remove_task 1 sample = sample\<lparr>todo_lines := Some [''- [x] a'', ''note'', ''- [ ] c'']\<rparr>
   \<and> Suc (length (get_unfinished_tasks (remove_task 1 sample))) = 2"
proof -
  have h1: "(1::int) \<le> 1"
    by simp
  have h: "1 \<le> int (length (get_unfinished_tasks sample))"
    by (simp add: sample_unfinished)
  have k: "get_unfinished_tasks sample ! nat (1 - 1) = 1"
    by (simp add: sample_unfinished)
  have c: "remove_task 1 sample =
        sample\<lparr>todo_lines := Some (take 1 (lines_of (todo_lines sample)) @
          drop (Suc 1) (lines_of (todo_lines sample)))\<rparr>
      \<and> Suc (length (get_unfinished_tasks (remove_task 1 sample))) =
          length (get_unfinished_tasks sample)"
    using remove_task_deletes_line [of 1 sample, OF h1 h]
    unfolding Let_def k by blast
  have "remove_task 1 sample = sample\<lparr>todo_lines := Some [''- [x] a'', ''note'', ''- [ ] c'']\<rparr>"
    using c [THEN conjunct1] unfolding sample_take_drop .
  moreover have "Suc (length (get_unfinished_tasks (remove_task 1 sample))) = 2"
    using c [THEN conjunct2] unfolding sample_unfinished by simp
  ultimately show ?thesis
    using h by simp
qed

text \<open>
  C6.  \<open>remove_finished_tasks\<close> is idempotent on the document: for every state, the
  document after two applications is the document after one.  One application leaves
  a document whose lines are the former lines that are not finished tasks, in order,
  so its finished index is empty; the second application then changes nothing and
  only reports that no finished tasks were found.
\<close>

theorem remove_finished_tasks_idempotent:
  "todo_lines (remove_finished_tasks (remove_finished_tasks w)) =
     todo_lines (remove_finished_tasks w)
   \<and> get_finished_tasks (remove_finished_tasks w) = []
   \<and> remove_finished_tasks (remove_finished_tasks w) =
       printf No_finished_tasks_found (remove_finished_tasks w)
   \<and> lines_of (todo_lines (remove_finished_tasks w)) =
       filter (\<lambda>l. \<not> finished_line l) (lines_of (todo_lines w))"
proof -
  have empty: "get_finished_tasks (remove_finished_tasks w) = []"
    by (rule get_finished_tasks_remove_finished_tasks)
  have twice: "remove_finished_tasks (remove_finished_tasks w) =
      printf No_finished_tasks_found (remove_finished_tasks w)"
    using empty by (simp add: remove_finished_tasks_eq [of "remove_finished_tasks w"])
  have "todo_lines (remove_finished_tasks (remove_finished_tasks w)) =
      todo_lines (remove_finished_tasks w)"
    by (simp only: twice todo_lines_printf)
  then show ?thesis
    using empty twice lines_remove_finished_tasks [of w] by blast
qed

text \<open>
  C7 (as the program has it).  For every state of the program, the absent document
  included, and every task number \<open>n\<close> with \<open>n \<le> 0\<close> or \<open>n\<close> greater than the current
  number of unfinished tasks, \<open>check_todo n\<close> and \<open>remove_task n\<close> print one diagnostic
  and change nothing else: the document and the file are as before.  The diagnostic
  is \<open>Invalid index: n\<close> when \<open>n \<le> 0\<close>; it is \<open>No unfinished tasks found.\<close> when
  \<open>n \<ge> 1\<close> and the document has no unfinished task; and it is
  \<open>Invalid index: n (only c unfinished tasks)\<close> otherwise.  So an invalid index is
  reported as such whenever \<open>n \<le> 0\<close> or the document has an unfinished task.
\<close>

theorem out_of_range_only_reports:
  assumes "n \<le> 0 \<or> int (length (get_unfinished_tasks w)) < n"
  shows "let m = (if n \<le> 0 then Invalid_index n
                  else if get_unfinished_tasks w = [] then No_unfinished_tasks_found
                  else Invalid_index_only n (int (length (get_unfinished_tasks w))))
         in check_todo n w = printf m w
          \<and> remove_task n w = printf m w
          \<and> todo_lines (check_todo n w) = todo_lines w
          \<and> todo_lines (remove_task n w) = todo_lines w
          \<and> todos_file (check_todo n w) = todos_file w
          \<and> todos_file (remove_task n w) = todos_file w
          \<and> stdout (check_todo n w) = stdout w @ [m]
          \<and> stdout (remove_task n w) = stdout w @ [m]
          \<and> (is_invalid_index m \<longleftrightarrow> n \<le> 0 \<or> get_unfinished_tasks w \<noteq> [])"
proof -
  define m where "m = (if n \<le> 0 then Invalid_index n
                  else if get_unfinished_tasks w = [] then No_unfinished_tasks_found
                  else Invalid_index_only n (int (length (get_unfinished_tasks w))))"
  have c: "check_todo n w = printf m w"
    unfolding m_def by (rule check_todo_out_of_range [OF assms])
  have r: "remove_task n w = printf m w"
    unfolding m_def by (rule remove_task_out_of_range [OF assms])
  have i: "is_invalid_index m \<longleftrightarrow> n \<le> 0 \<or> get_unfinished_tasks w \<noteq> []"
    by (simp add: m_def)
  show ?thesis
    unfolding Let_def m_def [symmetric]
    using i by (simp add: c r todo_lines_printf todos_file_printf stdout_printf)
qed

theorem out_of_range_only_reports_witness:
  "(5 \<le> (0::int) \<or> int (length (get_unfinished_tasks sample)) < 5)
   \<and> check_todo 5 sample = printf (Invalid_index_only 5 2) sample
   \<and> remove_task 5 sample = printf (Invalid_index_only 5 2) sample"
proof -
  have h: "5 \<le> (0::int) \<or> int (length (get_unfinished_tasks sample)) < 5"
    by (simp add: sample_unfinished)
  have m: "(if 5 \<le> (0::int) then Invalid_index 5
            else if get_unfinished_tasks sample = [] then No_unfinished_tasks_found
            else Invalid_index_only 5 (int (length (get_unfinished_tasks sample)))) =
      Invalid_index_only 5 2"
    by (simp add: sample_unfinished)
  have "check_todo 5 sample = printf (Invalid_index_only 5 2) sample
      \<and> remove_task 5 sample = printf (Invalid_index_only 5 2) sample"
    using out_of_range_only_reports [of 5 sample, OF h]
    unfolding Let_def m by blast
  then show ?thesis
    using h by blast
qed

text \<open>
  The claim C7 as it is written fails: for the absent document and the task number 1,
  which is greater than the number of unfinished tasks, both operations print
  \<open>No unfinished tasks found.\<close>, not an invalid index.
\<close>

theorem no_tasks_is_not_invalid_index:
  "int (length (get_unfinished_tasks
       \<lparr>todo_lines = None, todos_file = None, writable = True, stdout = []\<rparr>)) < 1
   \<and> stdout (check_todo 1 \<lparr>todo_lines = None, todos_file = None, writable = True, stdout = []\<rparr>) =
       [No_unfinished_tasks_found]
   \<and> stdout (remove_task 1 \<lparr>todo_lines = None, todos_file = None, writable = True, stdout = []\<rparr>) =
       [No_unfinished_tasks_found]
   \<and> \<not> is_invalid_index No_unfinished_tasks_found"
  by (simp add: get_unfinished_tasks_def check_todo_def remove_task_def printf_def)

section \<open>Reading the file line by line\<close>

lemma fgets_chars_append:
  "fst (fgets_chars n s) @ snd (fgets_chars n s) = s"
  by (induction n s rule: fgets_chars.induct) (auto split: prod.split)

lemma fgets_chars_length:
  "length (fst (fgets_chars n s)) \<le> n"
  by (induction n s rule: fgets_chars.induct) (auto split: prod.split)

lemma fgets_chars_more:
  "CHR 0x0A \<in> set a \<Longrightarrow>
     fgets_chars n (a @ b) = (fst (fgets_chars n a), snd (fgets_chars n a) @ b)"
  by (induction n a rule: fgets_chars.induct) (auto split: prod.split)

lemma fgets_chars_Nil: "fgets_chars n [] = ([], [])"
  by (cases n) simp_all

lemma fgets_chars_rest_last:
  "snd (fgets_chars n a) = [] \<or> last (snd (fgets_chars n a)) = last a"
  by (induction n a rule: fgets_chars.induct) (auto simp: fgets_chars_Nil split: prod.split)

lemma fgets_chars_full:
  "length pre = n \<Longrightarrow> CHR 0x0A \<notin> set pre \<Longrightarrow> fgets_chars n (pre @ rest) = (pre, rest)"
proof (induction pre arbitrary: n)
  case Nil
  then show ?case by simp
next
  case (Cons c pre)
  then show ?case by (cases n) auto
qed

lemma fgets_chars_line:
  "CHR 0x0A \<notin> set l \<Longrightarrow> length l < n \<Longrightarrow>
     fgets_chars n (l @ CHR 0x0A # rest) = (l @ [CHR 0x0A], rest)"
proof (induction l arbitrary: n)
  case Nil
  then show ?case by (cases n) simp_all
next
  case (Cons c l)
  then show ?case by (cases n) auto
qed

lemma strdup_takeWhile: "strdup s = takeWhile (\<lambda>c. c \<noteq> CHR 0x00) s"
  by (induction s) simp_all

lemma strdup_id: "CHR 0x00 \<notin> set s \<Longrightarrow> strdup s = s"
  by (induction s) auto

lemma read_lines_Nil: "read_lines [] lines = lines"
  by (subst read_lines.simps) (simp add: fgets_def)

lemma read_lines_step:
  "s \<noteq> [] \<Longrightarrow>
     read_lines s lines =
       read_lines (snd (fgets_chars (MAX_LINE_LENGTH - 1) s))
         (lines @ [strdup (fst (fgets_chars (MAX_LINE_LENGTH - 1) s))])"
  by (subst read_lines.simps) (simp add: fgets_def split: prod.split)

lemma read_lines_acc:
  "read_lines s lines = lines @ read_lines s []"
proof (induction s arbitrary: lines rule: length_induct)
  case (1 s)
  show ?case
  proof (cases "s = []")
    case True
    then show ?thesis by (simp add: read_lines_Nil)
  next
    case False
    let ?r = "snd (fgets_chars (MAX_LINE_LENGTH - 1) s)"
    let ?l = "strdup (fst (fgets_chars (MAX_LINE_LENGTH - 1) s))"
    have less: "length ?r < length s"
      using fgets_chars_rest_less [OF False, of 254] by (simp add: MAX_LINE_LENGTH_def)
    have "read_lines s lines = read_lines ?r (lines @ [?l])"
      by (rule read_lines_step [OF False])
    also have "\<dots> = (lines @ [?l]) @ read_lines ?r []"
      using "1.IH" less by blast
    also have "\<dots> = lines @ read_lines ?r [?l]"
      using "1.IH" less by (metis append_assoc)
    also have "read_lines ?r [?l] = read_lines s []"
      using read_lines_step [OF False, of "[]"] by simp
    finally show ?thesis .
  qed
qed

lemma read_lines_Cons:
  "s \<noteq> [] \<Longrightarrow>
     read_lines s [] =
       strdup (fst (fgets_chars (MAX_LINE_LENGTH - 1) s)) #
       read_lines (snd (fgets_chars (MAX_LINE_LENGTH - 1) s)) []"
  using read_lines_step [of s "[]"]
    read_lines_acc [of "snd (fgets_chars (MAX_LINE_LENGTH - 1) s)"
      "[strdup (fst (fgets_chars (MAX_LINE_LENGTH - 1) s))]"]
  by simp

lemma read_lines_eq_Nil: "read_lines s [] = [] \<longleftrightarrow> s = []"
  using read_lines_Cons [of s] by (cases "s = []") (simp_all add: read_lines_Nil)

lemma concat_read_lines:
  "CHR 0x00 \<notin> set s \<Longrightarrow> concat (read_lines s []) = s"
proof (induction s rule: length_induct)
  case (1 s)
  show ?case
  proof (cases "s = []")
    case True
    then show ?thesis by (simp add: read_lines_Nil)
  next
    case False
    let ?l = "fst (fgets_chars (MAX_LINE_LENGTH - 1) s)"
    let ?r = "snd (fgets_chars (MAX_LINE_LENGTH - 1) s)"
    have s: "?l @ ?r = s"
      by (rule fgets_chars_append)
    have less: "length ?r < length s"
      using fgets_chars_rest_less [OF False, of 254] by (simp add: MAX_LINE_LENGTH_def)
    have "CHR 0x00 \<notin> set ?l" and nul: "CHR 0x00 \<notin> set ?r"
      using "1.prems" s by (metis Un_iff set_append)+
    then have "strdup ?l = ?l"
      by (simp add: strdup_id)
    moreover have "concat (read_lines ?r []) = ?r"
      using "1.IH" less nul by blast
    ultimately show ?thesis
      using s by (simp add: read_lines_Cons [OF False])
  qed
qed

lemma read_lines_append:
  "a = [] \<or> last a = CHR 0x0A \<Longrightarrow> read_lines (a @ b) [] = read_lines a [] @ read_lines b []"
proof (induction a rule: length_induct)
  case (1 a)
  show ?case
  proof (cases "a = []")
    case True
    then show ?thesis by (simp add: read_lines_Nil)
  next
    case False
    let ?n = "MAX_LINE_LENGTH - 1"
    let ?l = "fst (fgets_chars ?n a)"
    let ?r = "snd (fgets_chars ?n a)"
    have nl: "CHR 0x0A \<in> set a"
      using "1.prems" False by (metis last_in_set)
    have chunk: "fgets_chars ?n (a @ b) = (?l, ?r @ b)"
      by (rule fgets_chars_more [OF nl])
    have less: "length ?r < length a"
      using fgets_chars_rest_less [OF False, of 254] by (simp add: MAX_LINE_LENGTH_def)
    have "?r = [] \<or> last ?r = CHR 0x0A"
      using fgets_chars_rest_last [of ?n a] "1.prems" False by auto
    then have "read_lines (?r @ b) [] = read_lines ?r [] @ read_lines b []"
      using "1.IH" less by blast
    moreover have "read_lines (a @ b) [] = strdup ?l # read_lines (?r @ b) []"
      using read_lines_Cons [of "a @ b"] False chunk by simp
    ultimately show ?thesis
      by (simp add: read_lines_Cons [OF False])
  qed
qed

lemma fprintf_lines_eq: "fprintf_lines lines out = out @ concat lines"
  by (induction lines arbitrary: out) simp_all

lemma strdup_length: "length (strdup s) \<le> length s"
  by (induction s) simp_all

lemma read_lines_bound:
  "l \<in> set (read_lines s []) \<Longrightarrow> length l \<le> MAX_LINE_LENGTH - 1"
proof (induction s rule: length_induct)
  case (1 s)
  show ?case
  proof (cases "s = []")
    case True
    then show ?thesis using "1.prems" by (simp add: read_lines_Nil)
  next
    case False
    let ?n = "MAX_LINE_LENGTH - 1"
    have less: "length (snd (fgets_chars ?n s)) < length s"
      using fgets_chars_rest_less [OF False, of 254] by (simp add: MAX_LINE_LENGTH_def)
    have "l = strdup (fst (fgets_chars ?n s)) \<or> l \<in> set (read_lines (snd (fgets_chars ?n s)) [])"
      using "1.prems" by (simp add: read_lines_Cons [OF False])
    then show ?thesis
    proof
      assume "l = strdup (fst (fgets_chars ?n s))"
      then show ?thesis
        using strdup_length [of "fst (fgets_chars ?n s)"] fgets_chars_length [of ?n s]
        by simp
    next
      assume "l \<in> set (read_lines (snd (fgets_chars ?n s)) [])"
      then show ?thesis
        using "1.IH" less by blast
    qed
  qed
qed

lemma get_all_lines_Some:
  "todos_file w = Some s \<Longrightarrow> lines_of (get_all_lines w) = read_lines s []"
  by (simp add: get_all_lines_def lines_of_def Let_def)

lemma get_all_lines_nonempty:
  "todos_file w = Some s \<Longrightarrow> s \<noteq> [] \<Longrightarrow> get_all_lines w = Some (read_lines s [])"
  by (simp add: get_all_lines_def Let_def read_lines_eq_Nil)

lemma get_all_lines_not_empty_array: "get_all_lines w \<noteq> Some []"
  by (simp add: get_all_lines_def Let_def split: option.split)

text \<open>
  C8 (as the program has it).  For every existing file that contains no NUL
  character, loading it with \<open>get_all_lines\<close> and saving the loaded document with
  \<open>save_todos\<close>, with nothing in between, leaves the file with its original content:
  the stored lines, terminators included, are in order the pieces of the content.
  (When the file is empty, or cannot be opened for writing, nothing is written.)
\<close>

theorem load_save_roundtrip:
  assumes "todos_file w = Some s" and "CHR 0x00 \<notin> set s"
  shows "todos_file (save_todos (w\<lparr>todo_lines := get_all_lines w\<rparr>)) = Some s
       \<and> concat (lines_of (get_all_lines w)) = s"
proof -
  have lines: "concat (lines_of (get_all_lines w)) = s"
    using assms by (simp add: get_all_lines_Some concat_read_lines)
  have "todos_file (save_todos (w\<lparr>todo_lines := get_all_lines w\<rparr>)) = Some s"
  proof (cases "s = []")
    case True
    then have "get_all_lines w = None"
      using assms(1) by (simp add: get_all_lines_def read_lines_Nil)
    then show ?thesis
      using assms(1) by (simp add: save_todos_def)
  next
    case False
    then have "get_all_lines w = Some (read_lines s [])"
      using assms(1) by (rule get_all_lines_nonempty [rotated])
    then show ?thesis
      using assms by (simp add: save_todos_def fprintf_lines_eq concat_read_lines todos_file_printf)
  qed
  then show ?thesis
    using lines by simp
qed

theorem load_save_roundtrip_witness:
  "todos_file (sample\<lparr>todos_file := Some ''- [ ] a\<newline>note''\<rparr>) = Some ''- [ ] a\<newline>note''
   \<and> CHR 0x00 \<notin> set ''- [ ] a\<newline>note''
   \<and> todos_file (save_todos (sample\<lparr>todos_file := Some ''- [ ] a\<newline>note'',
         todo_lines := get_all_lines (sample\<lparr>todos_file := Some ''- [ ] a\<newline>note''\<rparr>)\<rparr>)) =
       Some ''- [ ] a\<newline>note''"
proof -
  have h1: "todos_file (sample\<lparr>todos_file := Some ''- [ ] a\<newline>note''\<rparr>) = Some ''- [ ] a\<newline>note''"
    by simp
  have h2: "CHR 0x00 \<notin> set ''- [ ] a\<newline>note''"
    by simp
  show ?thesis
    using load_save_roundtrip [OF h1 h2] h2 by simp
qed

text \<open>
  The claim C8 as it is written fails on a file with a NUL character: of the line
  \<open>a\<close>, NUL, \<open>b\<close>, newline the copy made by \<open>strdup\<close> keeps only \<open>a\<close>, and that is all
  \<open>save_todos\<close> writes back.
\<close>

theorem nul_character_breaks_roundtrip:
  "todos_file (save_todos
     (\<lparr>todo_lines = None, todos_file = Some [CHR ''a'', CHR 0x00, CHR ''b'', CHR 0x0A],
       writable = True, stdout = []\<rparr>
      \<lparr>todo_lines := get_all_lines
         \<lparr>todo_lines = None, todos_file = Some [CHR ''a'', CHR 0x00, CHR ''b'', CHR 0x0A],
          writable = True, stdout = []\<rparr>\<rparr>)) = Some ''a''"
  by code_simp

text \<open>
  C10 (as the program has it).  During load, a source line of more than
  \<open>MAX_LINE_LENGTH - 1 = 255\<close> characters before its newline (and without NUL
  characters) is not truncated but split: the loaded document stores its first 255
  characters as one line, and then, as one or more further lines, the rest of the
  source line with its newline.  No character is discarded: these further lines put
  together are exactly the excess characters and the newline.  Every stored line has
  at most 255 characters.
\<close>

theorem long_line_is_split:
  assumes "todos_file w = Some (before @ line @ CHR 0x0A # after)"
    and "before = [] \<or> last before = CHR 0x0A"
    and "CHR 0x0A \<notin> set line" and "CHR 0x00 \<notin> set line"
    and "MAX_LINE_LENGTH - 1 < length line"
  shows "get_all_lines w =
       Some (read_lines before [] @ [take (MAX_LINE_LENGTH - 1) line] @
             read_lines (drop (MAX_LINE_LENGTH - 1) line @ [CHR 0x0A]) [] @
             read_lines after [])
     \<and> read_lines (drop (MAX_LINE_LENGTH - 1) line @ [CHR 0x0A]) [] \<noteq> []
     \<and> concat (read_lines (drop (MAX_LINE_LENGTH - 1) line @ [CHR 0x0A]) []) =
         drop (MAX_LINE_LENGTH - 1) line @ [CHR 0x0A]
     \<and> (\<forall>l \<in> set (lines_of (get_all_lines w)). length l \<le> MAX_LINE_LENGTH - 1)"
proof -
  let ?n = "MAX_LINE_LENGTH - 1"
  let ?s = "before @ line @ CHR 0x0A # after"
  have s: "?s = before @ (line @ [CHR 0x0A]) @ after"
    by simp
  have "read_lines ?s [] = read_lines before [] @ read_lines ((line @ [CHR 0x0A]) @ after) []"
    unfolding s by (rule read_lines_append [OF assms(2)])
  also have "read_lines ((line @ [CHR 0x0A]) @ after) [] =
      read_lines (line @ [CHR 0x0A]) [] @ read_lines after []"
    by (rule read_lines_append) simp
  finally have whole: "read_lines ?s [] =
      read_lines before [] @ read_lines (line @ [CHR 0x0A]) [] @ read_lines after []" .
  have "fgets_chars ?n (take ?n line @ (drop ?n line @ [CHR 0x0A])) =
      (take ?n line, drop ?n line @ [CHR 0x0A])"
    using assms(3,5) by (intro fgets_chars_full) (auto dest: in_set_takeD)
  then have chunk: "fgets_chars ?n (line @ [CHR 0x0A]) = (take ?n line, drop ?n line @ [CHR 0x0A])"
    by (simp only: append_assoc [symmetric] append_take_drop_id)
  have "CHR 0x00 \<notin> set (take ?n line)"
    using assms(4) by (auto dest: in_set_takeD)
  then have dup: "strdup (take ?n line) = take ?n line"
    by (rule strdup_id)
  have "read_lines (line @ [CHR 0x0A]) [] =
      take ?n line # read_lines (drop ?n line @ [CHR 0x0A]) []"
    using read_lines_Cons [of "line @ [CHR 0x0A]"] chunk dup by simp
  then have lines: "read_lines ?s [] =
      read_lines before [] @ [take ?n line] @
      read_lines (drop ?n line @ [CHR 0x0A]) [] @ read_lines after []"
    using whole by simp
  have loaded: "get_all_lines w = Some (read_lines ?s [])"
    using assms(1) by (intro get_all_lines_nonempty) simp_all
  have more: "read_lines (drop ?n line @ [CHR 0x0A]) [] \<noteq> []"
    by (simp add: read_lines_eq_Nil)
  have "CHR 0x00 \<notin> set (drop ?n line @ [CHR 0x0A])"
    using assms(4) by (auto dest: in_set_dropD)
  then have kept: "concat (read_lines (drop ?n line @ [CHR 0x0A]) []) = drop ?n line @ [CHR 0x0A]"
    by (rule concat_read_lines)
  have bound: "\<forall>l \<in> set (lines_of (get_all_lines w)). length l \<le> ?n"
    unfolding loaded lines_of_simps using read_lines_bound by blast
  show ?thesis
    using lines more kept bound unfolding loaded by blast
qed

text \<open>
  The claim C10 as it is written fails: of a source line of 256 letters and a newline
  the loaded document holds two lines, the first 255 letters and then the last letter
  with the newline, so the excess is kept.
\<close>

theorem long_line_not_truncated:
  "get_all_lines
     \<lparr>todo_lines = None, todos_file = Some (replicate 256 CHR ''a'' @ [CHR 0x0A]),
      writable = True, stdout = []\<rparr> =
   Some [replicate 255 CHR ''a'', [CHR ''a'', CHR 0x0A]]"
  by code_simp

theorem long_line_is_split_witness:
  "MAX_LINE_LENGTH - 1 < length (replicate 300 CHR ''a'')
   \<and> get_all_lines (sample\<lparr>todos_file := Some (''x\<newline>'' @ replicate 300 CHR ''a'' @ CHR 0x0A # ''y'')\<rparr>) =
       Some (read_lines ''x\<newline>'' [] @ [replicate 255 CHR ''a''] @
             read_lines (replicate 45 CHR ''a'' @ [CHR 0x0A]) [] @ read_lines ''y'' [])"
proof -
  have h1: "todos_file (sample\<lparr>todos_file := Some (''x\<newline>'' @ replicate 300 CHR ''a'' @ CHR 0x0A # ''y'')\<rparr>) =
      Some (''x\<newline>'' @ replicate 300 CHR ''a'' @ CHR 0x0A # ''y'')"
    by simp
  have h2: "''x\<newline>'' = [] \<or> last ''x\<newline>'' = CHR 0x0A"
    by simp
  have h3: "CHR 0x0A \<notin> set (replicate 300 CHR ''a'')"
    by simp
  have h4: "CHR 0x00 \<notin> set (replicate 300 CHR ''a'')"
    by simp
  have h5: "MAX_LINE_LENGTH - 1 < length (replicate 300 CHR ''a'')"
    by (simp add: MAX_LINE_LENGTH_def)
  have t: "take (MAX_LINE_LENGTH - 1) (replicate 300 CHR ''a'') = replicate 255 CHR ''a''"
    by (simp add: MAX_LINE_LENGTH_def)
  have d: "drop (MAX_LINE_LENGTH - 1) (replicate 300 CHR ''a'') = replicate 45 CHR ''a''"
    by (simp add: MAX_LINE_LENGTH_def)
  show ?thesis
    using long_line_is_split [OF h1 h2 h3 h4 h5, THEN conjunct1] h5
    unfolding t d by blast
qed

section \<open>Adding a task\<close>

lemma last_line_eq: "ls \<noteq> [] \<Longrightarrow> last_line ls = Some (last ls)"
  by (induction ls rule: last_line.induct) simp_all

lemma add_todo_eq:
  "add_todo task w =
     (if \<not> writable w then Some (printf Error_opening_for_appending w)
      else if todo_lines w = Some [] then None
      else Some (w\<lparr>todos_file := Some (file_content w @
             (if lines_of (todo_lines w) \<noteq> [] \<and> last (lines_of (todo_lines w)) \<noteq> [] \<and>
                 last (last (lines_of (todo_lines w))) \<noteq> CHR 0x0A
              then [CHR 0x0A] else []) @
             ''- [ ] '' @ task @ [CHR 0x0A])\<rparr>))"
proof (cases "todo_lines w")
  case None
  then show ?thesis
    by (simp add: add_todo_def file_content_def lines_of_def)
next
  case (Some ls)
  show ?thesis
  proof (cases "ls = []")
    case True
    then show ?thesis
      using Some by (simp add: add_todo_def)
  next
    case False
    show ?thesis
    proof (cases "last ls = []")
      case True
      then show ?thesis
        using Some False
        by (simp add: add_todo_def file_content_def lines_of_def last_line_eq Let_def)
    next
      case nonempty: False
      then have "last ls ! (length (last ls) - 1) = last (last ls)"
        by (simp add: last_conv_nth)
      then show ?thesis
        using Some False nonempty
        by (simp add: add_todo_def file_content_def lines_of_def last_line_eq Let_def
            del: One_nat_def)
    qed
  qed
qed

lemma read_lines_task:
  assumes "CHR 0x0A \<notin> set task" and "CHR 0x00 \<notin> set task"
    and "length task + 7 < MAX_LINE_LENGTH"
  shows "read_lines (''- [ ] '' @ task @ [CHR 0x0A]) [] = [''- [ ] '' @ task @ [CHR 0x0A]]"
proof -
  let ?l = "''- [ ] '' @ task"
  have "fgets_chars (MAX_LINE_LENGTH - 1) (?l @ CHR 0x0A # []) = (?l @ [CHR 0x0A], [])"
    using assms(1,3) by (intro fgets_chars_line) auto
  moreover have "strdup (?l @ [CHR 0x0A]) = ?l @ [CHR 0x0A]"
    using assms(2) by (intro strdup_id) auto
  ultimately show ?thesis
    using read_lines_Cons [of "?l @ [CHR 0x0A]"] by (simp add: read_lines_Nil)
qed

text \<open>
  C9 (as the program has it).  When the file can be opened for appending, \<open>add_todo\<close>
  appends the line \<open>- [ ] <text>\<close> followed by a newline and changes nothing else.  If
  the document is not empty and its last stored line is not empty and does not end in
  a newline, one newline is written before the new task line, and then, after a
  reload, the previous content and the new task are separate lines: the reloaded
  document is the lines of the previous content, terminated, followed by the lines of
  the new task line.  A task text of fewer than 249 characters, without newline and
  NUL, makes exactly one line.  (The document is the one that was loaded, so it is
  never an array without lines.)
\<close>

theorem add_todo_appends_task_line:
  assumes "writable w" and "todo_lines w \<noteq> Some []"
  shows "let ls = lines_of (todo_lines w);
             unterminated = (ls \<noteq> [] \<and> last ls \<noteq> [] \<and> last (last ls) \<noteq> CHR 0x0A);
             new = ''- [ ] '' @ task @ [CHR 0x0A];
             w' = w\<lparr>todos_file :=
                     Some (file_content w @ (if unterminated then [CHR 0x0A] else []) @ new)\<rparr>
         in add_todo task w = Some w'
          \<and> (unterminated \<longrightarrow>
               get_all_lines w' =
                 Some (read_lines (file_content w @ [CHR 0x0A]) [] @ read_lines new []))
          \<and> (CHR 0x0A \<notin> set task \<and> CHR 0x00 \<notin> set task \<and> length task + 7 < MAX_LINE_LENGTH \<longrightarrow>
               read_lines new [] = [new])"
proof -
  define ls where "ls = lines_of (todo_lines w)"
  define unterminated where
    "unterminated \<longleftrightarrow> ls \<noteq> [] \<and> last ls \<noteq> [] \<and> last (last ls) \<noteq> CHR 0x0A"
  define new where "new = ''- [ ] '' @ task @ [CHR 0x0A]"
  define w' where "w' = w\<lparr>todos_file :=
      Some (file_content w @ (if unterminated then [CHR 0x0A] else []) @ new)\<rparr>"
  have added: "add_todo task w = Some w'"
    using assms unfolding add_todo_eq w'_def unterminated_def ls_def new_def by simp
  have reload: "get_all_lines w' =
      Some (read_lines (file_content w @ [CHR 0x0A]) [] @ read_lines new [])" if unterminated
  proof -
    have content: "todos_file w' = Some ((file_content w @ [CHR 0x0A]) @ new)"
      using that by (simp add: w'_def)
    have "read_lines ((file_content w @ [CHR 0x0A]) @ new) [] =
        read_lines (file_content w @ [CHR 0x0A]) [] @ read_lines new []"
      by (rule read_lines_append) simp
    then show ?thesis
      using get_all_lines_nonempty [OF content] by simp
  qed
  have one: "read_lines new [] = [new]"
    if "CHR 0x0A \<notin> set task \<and> CHR 0x00 \<notin> set task \<and> length task + 7 < MAX_LINE_LENGTH"
    unfolding new_def using that by (intro read_lines_task) simp_all
  show ?thesis
    unfolding Let_def ls_def [symmetric] unterminated_def [symmetric] new_def [symmetric]
      w'_def [symmetric]
    using added reload one by blast
qed

theorem add_todo_appends_task_line_witness:
  "writable (sample\<lparr>todo_lines := Some [''- [ ] a\<newline>'', ''note''], todos_file := Some ''- [ ] a\<newline>note''\<rparr>)
   \<and> add_todo ''t''
        (sample\<lparr>todo_lines := Some [''- [ ] a\<newline>'', ''note''], todos_file := Some ''- [ ] a\<newline>note''\<rparr>) =
      Some (sample\<lparr>todo_lines := Some [''- [ ] a\<newline>'', ''note''],
                   todos_file := Some ''- [ ] a\<newline>note\<newline>- [ ] t\<newline>''\<rparr>)"
proof -
  let ?w = "sample\<lparr>todo_lines := Some [''- [ ] a\<newline>'', ''note''], todos_file := Some ''- [ ] a\<newline>note''\<rparr>"
  have h1: "writable ?w"
    by (simp add: sample_def)
  have h2: "todo_lines ?w \<noteq> Some []"
    by simp
  have "add_todo ''t'' ?w =
      Some (?w\<lparr>todos_file := Some (file_content ?w @
        (if lines_of (todo_lines ?w) \<noteq> [] \<and> last (lines_of (todo_lines ?w)) \<noteq> [] \<and>
            last (last (lines_of (todo_lines ?w))) \<noteq> CHR 0x0A
         then [CHR 0x0A] else []) @ ''- [ ] '' @ ''t'' @ [CHR 0x0A])\<rparr>)"
    using add_todo_appends_task_line [of ?w "''t''", OF h1 h2]
    unfolding Let_def by blast
  then show ?thesis
    using h1 by (simp add: file_content_def lines_of_def)
qed

text \<open>
  The claim C9 as it is written fails when the last stored line is empty.  The file
  that holds one NUL character loads as a document of one line, the empty string,
  which does not end in a newline; \<open>add_todo\<close> writes no newline before the task line,
  and a reload gives the same document of one empty line, without the new task.
\<close>

theorem empty_last_line_gets_no_newline:
  "get_all_lines \<lparr>todo_lines = None, todos_file = Some [CHR 0x00], writable = True, stdout = []\<rparr> =
     Some [[]]
   \<and> add_todo ''t'' \<lparr>todo_lines = Some [[]], todos_file = Some [CHR 0x00], writable = True, stdout = []\<rparr> =
     Some \<lparr>todo_lines = Some [[]], todos_file = Some (CHR 0x00 # ''- [ ] t\<newline>''),
           writable = True, stdout = []\<rparr>
   \<and> get_all_lines \<lparr>todo_lines = Some [[]], todos_file = Some (CHR 0x00 # ''- [ ] t\<newline>''),
           writable = True, stdout = []\<rparr> =
     Some [[]]"
  by code_simp

section \<open>Passthrough lines\<close>

lemma passthrough_check_todo:
  "filter passthrough_line (lines_of (todo_lines (check_todo n w))) =
     filter passthrough_line (lines_of (todo_lines w))"
proof (cases "1 \<le> n \<and> n \<le> int (length (get_unfinished_tasks w))")
  case True
  let ?ls = "lines_of (todo_lines w)"
  let ?k = "get_unfinished_tasks w ! nat (n - 1)"
  have "nat (n - 1) < length (positions unfinished_line ?ls)"
    using True by (auto simp: get_unfinished_tasks_eq)
  then have k: "?k < length ?ls" "unfinished_line (?ls ! ?k)"
    using positions_nth [of "nat (n - 1)" unfinished_line ?ls]
    by (simp_all add: get_unfinished_tasks_eq)
  have "filter passthrough_line (?ls[?k := mark_finished (?ls ! ?k)]) = filter passthrough_line ?ls"
    using k finished_mark_finished [of "?ls ! ?k"]
    by (intro filter_update_other) (simp_all add: passthrough_line_def)
  then show ?thesis
    using True by (simp add: check_todo_in_range lines_of_simps)
next
  case False
  then have "n \<le> 0 \<or> int (length (get_unfinished_tasks w)) < n"
    by auto
  then show ?thesis
    by (simp only: check_todo_out_of_range todo_lines_printf)
qed

lemma passthrough_remove_task:
  "filter passthrough_line (lines_of (todo_lines (remove_task n w))) =
     filter passthrough_line (lines_of (todo_lines w))"
proof (cases "1 \<le> n \<and> n \<le> int (length (get_unfinished_tasks w))")
  case True
  let ?ls = "lines_of (todo_lines w)"
  let ?k = "get_unfinished_tasks w ! nat (n - 1)"
  have "nat (n - 1) < length (positions unfinished_line ?ls)"
    using True by (auto simp: get_unfinished_tasks_eq)
  then have k: "?k < length ?ls" "unfinished_line (?ls ! ?k)"
    using positions_nth [of "nat (n - 1)" unfinished_line ?ls]
    by (simp_all add: get_unfinished_tasks_eq)
  have "filter passthrough_line (take ?k ?ls @ drop (Suc ?k) ?ls) = filter passthrough_line ?ls"
    using k by (intro filter_delete_other) (simp_all add: passthrough_line_def)
  then show ?thesis
    using True by (simp add: remove_task_in_range lines_of_simps)
next
  case False
  then have "n \<le> 0 \<or> int (length (get_unfinished_tasks w)) < n"
    by auto
  then show ?thesis
    by (simp only: remove_task_out_of_range todo_lines_printf)
qed

lemma passthrough_remove_finished_tasks:
  "filter passthrough_line (lines_of (todo_lines (remove_finished_tasks w))) =
     filter passthrough_line (lines_of (todo_lines w))"
  unfolding lines_remove_finished_tasks filter_filter
  by (rule filter_cong) (auto simp: passthrough_line_def)

section \<open>Several indexes at once\<close>

lemma int_sub_in_range:
  "- 2147483648 \<le> a - b \<Longrightarrow> a - b < 2147483648 \<Longrightarrow> int_sub a b = a - b"
  by (simp add: int_sub_def to_int_def)

lemma compare_int_desc_le:
  assumes "0 < a" "a \<le> INT_MAX" "0 < b" "b \<le> INT_MAX"
  shows "compare_int_desc a b \<le> 0 \<longleftrightarrow> b \<le> a"
proof -
  have "int_sub b a = b - a"
    using assms by (intro int_sub_in_range) (simp_all add: INT_MAX_def)
  then show ?thesis
    by (simp add: compare_int_desc_def)
qed

lemma mset_qsort_insert: "mset (qsort_insert cmp x ys) = add_mset x (mset ys)"
  by (induction ys) simp_all

lemma mset_qsort: "mset (qsort xs cmp) = mset xs"
  by (induction xs) (simp_all add: mset_qsort_insert)

lemma set_qsort_insert: "set (qsort_insert cmp x ys) = insert x (set ys)"
  using mset_qsort_insert [of cmp x ys] by (metis set_mset_add_mset_insert set_mset_mset)

lemma set_qsort: "set (qsort xs cmp) = set xs"
  using mset_qsort [of xs cmp] by (metis set_mset_mset)

lemma sorted_qsort_insert:
  assumes "\<And>y. y \<in> set ys \<Longrightarrow> cmp x y \<le> 0 \<longleftrightarrow> y \<le> x"
    and "sorted (rev ys)"
  shows "sorted (rev (qsort_insert cmp x ys))"
  using assms
proof (induction ys)
  case Nil
  then show ?case by simp
next
  case (Cons y ys)
  show ?case
  proof (cases "cmp x y \<le> 0")
    case True
    then have "y \<le> x"
      using Cons.prems(1) [of y] by simp
    then show ?thesis
      using True Cons.prems(2) by (auto simp: sorted_append)
  next
    case False
    then have "x \<le> y"
      using Cons.prems(1) [of y] by simp
    moreover have "sorted (rev (qsort_insert cmp x ys))"
      using Cons.IH Cons.prems by (simp add: sorted_append)
    ultimately show ?thesis
      using False Cons.prems(2) by (auto simp: sorted_append set_qsort_insert)
  qed
qed

lemma sorted_qsort:
  assumes "\<And>x y. x \<in> set xs \<Longrightarrow> y \<in> set xs \<Longrightarrow> cmp x y \<le> 0 \<longleftrightarrow> y \<le> x"
  shows "sorted (rev (qsort xs cmp))"
  using assms
proof (induction xs)
  case Nil
  then show ?case by simp
next
  case (Cons x xs)
  have "sorted (rev (qsort xs cmp))"
    using Cons by simp
  moreover have "cmp x y \<le> 0 \<longleftrightarrow> y \<le> x" if "y \<in> set (qsort xs cmp)" for y
    using that Cons.prems [of x y] by (simp add: set_qsort)
  ultimately have "sorted (rev (qsort_insert cmp x (qsort xs cmp)))"
    by (intro sorted_qsort_insert)
  then show ?case
    by simp
qed

lemma qsort_descending:
  assumes "\<And>x. x \<in> set xs \<Longrightarrow> 0 < x \<and> x \<le> INT_MAX"
  shows "qsort xs compare_int_desc = rev (sort xs)"
proof -
  have "sorted (rev (qsort xs compare_int_desc))"
    using assms by (intro sorted_qsort compare_int_desc_le) simp_all
  moreover have "mset (rev (qsort xs compare_int_desc)) = mset xs"
    by (simp add: mset_qsort)
  ultimately have "sort xs = rev (qsort xs compare_int_desc)"
    by (rule properties_for_sort [rotated])
  then show ?thesis
    by simp
qed

lemma parse_indexes_eq:
  "parse_indexes args indexes w =
     (indexes @ filter (\<lambda>i. 0 < i) (map atoi args),
      w\<lparr>stdout := stdout w @ map Skipping_invalid_index (filter (\<lambda>a. atoi a \<le> 0) args)\<rparr>)"
proof (induction args arbitrary: indexes w)
  case Nil
  show ?case by simp
next
  case (Cons a args)
  show ?case
    by (simp add: Cons.IH Let_def printf_def)
qed

lemma call_loop_foldl: "call_loop fn indexes w = foldl (\<lambda>w i. fn i w) w indexes"
  by (induction indexes arbitrary: w) simp_all

lemma scenario_batch_remove:
  "qsort [1, 3] compare_int_desc = [3, 1]
   \<and> call_fn_with_indexes [''todo'', ''remove'', ''1'', ''3''] 2 remove_task
       (sample\<lparr>todo_lines := Some [''- [ ] A'', ''- [ ] B'', ''- [ ] C'']\<rparr>) =
     (0, sample\<lparr>todo_lines := Some [''- [ ] B'']\<rparr>)"
  by code_simp

section \<open>The order of the surviving lines\<close>

lemma nths_delete: "nths ls (- {k}) = take k ls @ drop (Suc k) ls"
proof (induction ls arbitrary: k)
  case Nil
  show ?case by simp
next
  case (Cons l ls)
  show ?case
  proof (cases k)
    case 0
    have "{j. Suc j \<in> - {0::nat}} = UNIV"
      by auto
    then show ?thesis
      using 0 by (simp add: nths_Cons nths_all)
  next
    case (Suc k')
    have "{j. Suc j \<in> - {Suc k'}} = - {k'}"
      by auto
    then show ?thesis
      using Suc Cons.IH [of k'] by (simp add: nths_Cons)
  qed
qed

lemma nths_not_positions:
  "nths ls (- set (positions P ls)) = filter (\<lambda>l. \<not> P l) ls"
proof (induction ls)
  case Nil
  show ?case by simp
next
  case (Cons l ls)
  have "{j. Suc j \<in> - set (positions P (l # ls))} = - set (positions P ls)"
    by (auto simp: set_positions)
  moreover have "0 \<in> - set (positions P (l # ls)) \<longleftrightarrow> \<not> P l"
    by (simp add: set_positions)
  ultimately show ?case
    using Cons.IH by (simp add: nths_Cons)
qed

lemma lines_check_todo:
  "lines_of (todo_lines (check_todo n w)) =
     (if 1 \<le> n \<and> n \<le> int (length (get_unfinished_tasks w))
      then (lines_of (todo_lines w))[get_unfinished_tasks w ! nat (n - 1) :=
             mark_finished (lines_of (todo_lines w) ! (get_unfinished_tasks w ! nat (n - 1)))]
      else lines_of (todo_lines w))"
proof (cases "1 \<le> n \<and> n \<le> int (length (get_unfinished_tasks w))")
  case True
  then show ?thesis
    by (simp add: check_todo_in_range lines_of_simps)
next
  case False
  then have "n \<le> 0 \<or> int (length (get_unfinished_tasks w)) < n"
    by auto
  then have "todo_lines (check_todo n w) = todo_lines w"
    by (simp only: check_todo_out_of_range todo_lines_printf)
  then show ?thesis
    using False by auto
qed

lemma lines_remove_task:
  "lines_of (todo_lines (remove_task n w)) =
     nths (lines_of (todo_lines w))
       (- (if 1 \<le> n \<and> n \<le> int (length (get_unfinished_tasks w))
           then {get_unfinished_tasks w ! nat (n - 1)} else {}))"
proof (cases "1 \<le> n \<and> n \<le> int (length (get_unfinished_tasks w))")
  case True
  then show ?thesis
    by (simp add: remove_task_in_range lines_of_simps nths_delete)
next
  case False
  then have "n \<le> 0 \<or> int (length (get_unfinished_tasks w)) < n"
    by auto
  then have "todo_lines (remove_task n w) = todo_lines w"
    by (simp only: remove_task_out_of_range todo_lines_printf)
  then show ?thesis
    using False by (auto simp: nths_all)
qed

lemma resolved_line:
  assumes "1 \<le> n \<and> n \<le> int (length (get_unfinished_tasks w))"
  shows "get_unfinished_tasks w ! nat (n - 1) < length (lines_of (todo_lines w))
     \<and> unfinished_line (lines_of (todo_lines w) ! (get_unfinished_tasks w ! nat (n - 1)))"
proof -
  have "nat (n - 1) < length (positions unfinished_line (lines_of (todo_lines w)))"
    using assms by (auto simp: get_unfinished_tasks_eq)
  then show ?thesis
    using positions_nth [of "nat (n - 1)" unfinished_line "lines_of (todo_lines w)"]
    by (simp add: get_unfinished_tasks_eq)
qed

lemma check_todo_positions:
  assumes "i < length (lines_of (todo_lines w))"
  shows "lines_of (todo_lines (check_todo n w)) ! i = lines_of (todo_lines w) ! i
     \<or> (\<not> passthrough_line (lines_of (todo_lines w) ! i)
        \<and> \<not> passthrough_line (lines_of (todo_lines (check_todo n w)) ! i))"
proof (cases "1 \<le> n \<and> n \<le> int (length (get_unfinished_tasks w))")
  case True
  let ?ls = "lines_of (todo_lines w)"
  let ?k = "get_unfinished_tasks w ! nat (n - 1)"
  have k: "?k < length ?ls" "unfinished_line (?ls ! ?k)"
    using resolved_line [OF True] by simp_all
  have lines: "lines_of (todo_lines (check_todo n w)) = ?ls[?k := mark_finished (?ls ! ?k)]"
    using True by (simp add: lines_check_todo)
  show ?thesis
  proof (cases "i = ?k")
    case True
    then show ?thesis
      using k finished_mark_finished [of "?ls ! ?k"]
      by (simp add: lines passthrough_line_def)
  next
    case False
    then show ?thesis
      by (simp add: lines)
  qed
next
  case False
  then have "lines_of (todo_lines (check_todo n w)) = lines_of (todo_lines w)"
    by (auto simp: lines_check_todo)
  then show ?thesis
    by simp
qed

lemma length_check_todo:
  "length (lines_of (todo_lines (check_todo n w))) = length (lines_of (todo_lines w))"
  by (simp add: lines_check_todo)

lemma finished_tasks_lines:
  "i \<in> set (get_finished_tasks w) \<Longrightarrow>
     i < length (lines_of (todo_lines w)) \<and> \<not> passthrough_line (lines_of (todo_lines w) ! i)"
  by (simp add: get_finished_tasks_eq set_positions passthrough_line_def)

lemma lines_pruned:
  "lines_of (todo_lines (remove_finished_tasks w)) =
     nths (lines_of (todo_lines w)) (- set (get_finished_tasks w))"
  by (simp add: lines_remove_finished_tasks get_finished_tasks_eq nths_not_positions)

text \<open>
  C2.  For every state of the program and every operation among \<open>check_todo\<close>,
  \<open>remove_task\<close>, \<open>remove_finished_tasks\<close> and \<open>add_todo\<close>, called with any task number
  or text, the lines that do not match the task line grammar (after their leading
  white space they begin neither with \<open>- [ ]\<close> nor with \<open>- [x]\<close>) keep their content
  and their order among the lines that survive.  \<open>check_todo\<close> leaves every line at
  its position, and a line it changes is a task line before and after.  The document
  after \<open>remove_task\<close> and after \<open>remove_finished_tasks\<close> consists of the lines of the
  former document at all positions but the deleted ones, in their former order
  (\<open>nths\<close>), and every deleted position held a task line: the resolved unfinished task
  when the number is in range and nothing otherwise, or the finished tasks.  In
  particular the passthrough lines afterwards are in order the passthrough lines
  before.  \<open>add_todo\<close> does not touch the document, and it only appends to the file:
  the former content of the file is the beginning of the new content.
\<close>

theorem passthrough_lines_preserved:
  "let ls = lines_of (todo_lines w);
       checked = lines_of (todo_lines (check_todo n w));
       removed = lines_of (todo_lines (remove_task n w));
       pruned = lines_of (todo_lines (remove_finished_tasks w));
       in_range = (1 \<le> n \<and> n \<le> int (length (get_unfinished_tasks w)));
       k = get_unfinished_tasks w ! nat (n - 1)
   in length checked = length ls
    \<and> (\<forall>i < length ls.
          checked ! i = ls ! i
        \<or> (\<not> passthrough_line (ls ! i) \<and> \<not> passthrough_line (checked ! i)))
    \<and> removed = nths ls (- (if in_range then {k} else {}))
    \<and> (in_range \<longrightarrow> k < length ls \<and> \<not> passthrough_line (ls ! k))
    \<and> pruned = nths ls (- set (get_finished_tasks w))
    \<and> (\<forall>i \<in> set (get_finished_tasks w). i < length ls \<and> \<not> passthrough_line (ls ! i))
    \<and> filter passthrough_line checked = filter passthrough_line ls
    \<and> filter passthrough_line removed = filter passthrough_line ls
    \<and> filter passthrough_line pruned = filter passthrough_line ls
    \<and> (case add_todo task w of
         None \<Rightarrow> todo_lines w = Some []
       | Some w' \<Rightarrow>
           todo_lines w' = todo_lines w
         \<and> take (length (file_content w)) (file_content w') = file_content w)"
proof -
  define ls where "ls = lines_of (todo_lines w)"
  define checked where "checked = lines_of (todo_lines (check_todo n w))"
  define removed where "removed = lines_of (todo_lines (remove_task n w))"
  define pruned where "pruned = lines_of (todo_lines (remove_finished_tasks w))"
  define in_range where "in_range \<longleftrightarrow> 1 \<le> n \<and> n \<le> int (length (get_unfinished_tasks w))"
  define k where "k = get_unfinished_tasks w ! nat (n - 1)"
  have c1: "length checked = length ls"
    unfolding checked_def ls_def by (rule length_check_todo)
  have c2: "\<forall>i < length ls.
      checked ! i = ls ! i \<or> (\<not> passthrough_line (ls ! i) \<and> \<not> passthrough_line (checked ! i))"
    unfolding checked_def ls_def using check_todo_positions by blast
  have r1: "removed = nths ls (- (if in_range then {k} else {}))"
    unfolding removed_def ls_def in_range_def k_def by (rule lines_remove_task)
  have r2: "in_range \<longrightarrow> k < length ls \<and> \<not> passthrough_line (ls ! k)"
    unfolding ls_def in_range_def k_def
    using resolved_line [of n w] by (auto simp: passthrough_line_def)
  have p1: "pruned = nths ls (- set (get_finished_tasks w))"
    unfolding pruned_def ls_def by (rule lines_pruned)
  have p2: "\<forall>i \<in> set (get_finished_tasks w). i < length ls \<and> \<not> passthrough_line (ls ! i)"
    unfolding ls_def using finished_tasks_lines by blast
  have f1: "filter passthrough_line checked = filter passthrough_line ls"
    unfolding checked_def ls_def by (rule passthrough_check_todo)
  have f2: "filter passthrough_line removed = filter passthrough_line ls"
    unfolding removed_def ls_def by (rule passthrough_remove_task)
  have f3: "filter passthrough_line pruned = filter passthrough_line ls"
    unfolding pruned_def ls_def by (rule passthrough_remove_finished_tasks)
  have a: "case add_todo task w of
        None \<Rightarrow> todo_lines w = Some []
      | Some w' \<Rightarrow>
          todo_lines w' = todo_lines w
        \<and> take (length (file_content w)) (file_content w') = file_content w"
    by (simp add: add_todo_eq todo_lines_printf file_content_def printf_def)
  show ?thesis
    unfolding Let_def ls_def [symmetric] checked_def [symmetric] removed_def [symmetric]
      pruned_def [symmetric] in_range_def [symmetric] k_def [symmetric]
    using c1 c2 r1 r2 p1 p2 f1 f2 f3 a by blast
qed

theorem passthrough_lines_preserved_witness:
  "lines_of (todo_lines (remove_task 2 sample)) = [''- [x] a'', ''  - [ ] b'', ''note'']
   \<and> lines_of (todo_lines (remove_finished_tasks sample)) = [''  - [ ] b'', ''note'', ''- [ ] c'']
   \<and> length (lines_of (todo_lines (check_todo 2 sample))) = 4"
proof -
  have c: "length (lines_of (todo_lines (check_todo 2 sample))) = length (lines_of (todo_lines sample))
      \<and> lines_of (todo_lines (remove_task 2 sample)) =
          nths (lines_of (todo_lines sample))
            (- (if 1 \<le> (2::int) \<and> 2 \<le> int (length (get_unfinished_tasks sample))
                then {get_unfinished_tasks sample ! nat (2 - 1)} else {}))
      \<and> lines_of (todo_lines (remove_finished_tasks sample)) =
          nths (lines_of (todo_lines sample)) (- set (get_finished_tasks sample))"
    using passthrough_lines_preserved [of sample 2 "''t''"]
    unfolding Let_def by blast
  have "lines_of (todo_lines (remove_task 2 sample)) = [''- [x] a'', ''  - [ ] b'', ''note'']"
    using c [THEN conjunct2, THEN conjunct1]
    unfolding sample_unfinished sample_lines by (simp add: nths_delete)
  moreover have "lines_of (todo_lines (remove_finished_tasks sample)) =
      [''  - [ ] b'', ''note'', ''- [ ] c'']"
    using c [THEN conjunct2, THEN conjunct2]
    unfolding sample_finished sample_lines by (simp add: nths_delete)
  moreover have "length (lines_of (todo_lines (check_todo 2 sample))) = 4"
    using c [THEN conjunct1] unfolding sample_lines by simp
  ultimately show ?thesis
    by blast
qed

section \<open>The numbers read from the arguments\<close>

lemma to_int_range: "- INT_MAX - 1 \<le> to_int x \<and> to_int x \<le> INT_MAX"
proof -
  have "0 \<le> (x + 2147483648) mod 4294967296" and "(x + 2147483648) mod 4294967296 < 4294967296"
    by simp_all
  then show ?thesis
    by (simp add: to_int_def INT_MAX_def)
qed

lemma to_int_id: "- INT_MAX - 1 \<le> x \<Longrightarrow> x \<le> INT_MAX \<Longrightarrow> to_int x = x"
  by (simp add: to_int_def INT_MAX_def)

lemma atoi_range: "- INT_MAX - 1 \<le> atoi s \<and> atoi s \<le> INT_MAX"
  unfolding atoi_def by (rule to_int_range)

lemma atoi_decimal_value:
  assumes "- INT_MAX - 1 \<le> decimal_value s" and "decimal_value s \<le> INT_MAX"
  shows "atoi s = decimal_value s"
proof -
  have "strtol s = decimal_value s"
    using assms by (simp add: strtol_def Let_def INT_MAX_def LONG_MAX_def)
  then show ?thesis
    using assms by (simp add: atoi_def to_int_id)
qed

text \<open>
  C5 (as the program has it).  \<open>call_fn_with_indexes\<close> reads every argument from
  position \<open>index\<close> on with \<open>atoi\<close>: the value of the leading decimal numeral of the
  token (so \<open>2x\<close> reads as 2 and a token without a numeral as 0), converted to an
  \<open>int\<close>.  For a numeral within the range of \<open>int\<close> this is the value of the numeral;
  a numeral outside the range is not rejected but reduced to 32 bits.  Every token
  whose number so read is not strictly positive is dropped, each with its own
  diagnostic and without stopping the batch; the numbers that remain are sorted in
  descending order, and the operation is applied once per number in that order,
  duplicates included.  In particular, removing the user numbers 1 and 3 from the
  document of the lines \<open>- [ ] A\<close>, \<open>- [ ] B\<close>, \<open>- [ ] C\<close> processes 3 and then 1 and
  leaves the document of the one line \<open>- [ ] B\<close>.
\<close>

theorem call_fn_with_indexes_descending:
  "call_fn_with_indexes argv index fn w =
       (0, foldl (\<lambda>w i. fn i w)
             (w\<lparr>stdout := stdout w @
                  map Skipping_invalid_index (filter (\<lambda>a. atoi a \<le> 0) (drop index argv))\<rparr>)
             (rev (sort (filter (\<lambda>i. 0 < i) (map atoi (drop index argv))))))
   \<and> (\<forall>a. atoi a = to_int (strtol a) \<and> - INT_MAX - 1 \<le> atoi a \<and> atoi a \<le> INT_MAX)
   \<and> (\<forall>a. - INT_MAX - 1 \<le> decimal_value a \<and> decimal_value a \<le> INT_MAX \<longrightarrow>
          atoi a = decimal_value a)
   \<and> qsort [1, 3] compare_int_desc = [3, 1]
   \<and> call_fn_with_indexes [''todo'', ''remove'', ''1'', ''3''] 2 remove_task
       (sample\<lparr>todo_lines := Some [''- [ ] A'', ''- [ ] B'', ''- [ ] C'']\<rparr>) =
     (0, sample\<lparr>todo_lines := Some [''- [ ] B'']\<rparr>)"
proof -
  let ?indexes = "filter (\<lambda>i. 0 < i) (map atoi (drop index argv))"
  have "0 < x \<and> x \<le> INT_MAX" if "x \<in> set ?indexes" for x
    using that atoi_range by auto
  then have "qsort ?indexes compare_int_desc = rev (sort ?indexes)"
    by (intro qsort_descending) blast
  then have batch: "call_fn_with_indexes argv index fn w =
       (0, foldl (\<lambda>w i. fn i w)
             (w\<lparr>stdout := stdout w @
                  map Skipping_invalid_index (filter (\<lambda>a. atoi a \<le> 0) (drop index argv))\<rparr>)
             (rev (sort ?indexes)))"
    by (simp add: call_fn_with_indexes_def parse_indexes_eq call_loop_foldl)
  have read: "\<forall>a. atoi a = to_int (strtol a) \<and> - INT_MAX - 1 \<le> atoi a \<and> atoi a \<le> INT_MAX"
    using atoi_range by (simp add: atoi_def)
  have numeral: "\<forall>a. - INT_MAX - 1 \<le> decimal_value a \<and> decimal_value a \<le> INT_MAX \<longrightarrow>
      atoi a = decimal_value a"
    using atoi_decimal_value by blast
  show ?thesis
    using batch read numeral scenario_batch_remove by blast
qed

theorem call_fn_with_indexes_descending_witness:
  "call_fn_with_indexes [''todo'', ''check'', ''1'', ''x'', ''0'', ''2x''] 2 check_todo sample =
       (0, check_todo 1 (check_todo 2
             (sample\<lparr>stdout := [Skipping_invalid_index ''x'', Skipping_invalid_index ''0'']\<rparr>)))
   \<and> atoi ''2x'' = 2"
proof -
  let ?argv = "[''todo'', ''check'', ''1'', ''x'', ''0'', ''2x'']"
  have e1: "rev (sort (filter (\<lambda>i. 0 < i) (map atoi (drop 2 ?argv)))) = [2, 1]"
    by code_simp
  have e2: "map Skipping_invalid_index (filter (\<lambda>a. atoi a \<le> 0) (drop 2 ?argv)) =
      [Skipping_invalid_index ''x'', Skipping_invalid_index ''0'']"
    by code_simp
  have e3: "stdout sample = []"
    by (simp add: sample_def)
  have d: "decimal_value ''2x'' = 2"
    by code_simp
  have "call_fn_with_indexes ?argv 2 check_todo sample =
      (0, check_todo 1 (check_todo 2
            (sample\<lparr>stdout := [Skipping_invalid_index ''x'', Skipping_invalid_index ''0'']\<rparr>)))"
    using call_fn_with_indexes_descending [of ?argv 2 check_todo sample, THEN conjunct1]
    unfolding e1 e2 e3 by simp
  moreover have "atoi ''2x'' = 2"
    using call_fn_with_indexes_descending [of ?argv 2 check_todo sample,
        THEN conjunct2, THEN conjunct2, THEN conjunct1, THEN spec, of "''2x''"]
    unfolding d by (simp add: INT_MAX_def)
  ultimately show ?thesis
    by blast
qed

text \<open>
  The claim C5 as it is written fails on numerals outside the range of \<open>int\<close>.  The
  token \<open>-4294967295\<close> is not a strictly positive integer, but it is read as 1 and the
  first task is removed without a diagnostic; the token \<open>2147483648\<close> is a strictly
  positive integer, but it is read as a negative number and skipped.
\<close>

theorem numeral_outside_int_range:
  "decimal_value ''-4294967295'' = - 4294967295
   \<and> call_fn_with_indexes [''todo'', ''remove'', ''-4294967295''] 2 remove_task
       (sample\<lparr>todo_lines := Some [''- [ ] A'', ''- [ ] B'', ''- [ ] C'']\<rparr>) =
     (0, sample\<lparr>todo_lines := Some [''- [ ] B'', ''- [ ] C'']\<rparr>)
   \<and> decimal_value ''2147483648'' = 2147483648
   \<and> call_fn_with_indexes [''todo'', ''remove'', ''2147483648''] 2 remove_task
       (sample\<lparr>todo_lines := Some [''- [ ] A'', ''- [ ] B'', ''- [ ] C'']\<rparr>) =
     (0, sample\<lparr>todo_lines := Some [''- [ ] A'', ''- [ ] B'', ''- [ ] C''],
                stdout := [Skipping_invalid_index ''2147483648'']\<rparr>)"
  by code_simp

end
